theory Spec2Isabelle
  imports Main "HOL-Library.Monad_Syntax"
begin

section \<open>JavaScript values\<close>

text \<open>
  The tracker and the wiki answer with JSON, and the projector reads that JSON with
  dynamic property access. A value is therefore one of the JSON shapes, plus
  \<open>undefined\<close>, which a failed property read produces. Numbers are the integers
  (fractions never decide a branch of the code); the engine keeps and prints an integer
  exactly as long as it is a safe integer, of magnitude below \<open>2^53\<close>. An object is the
  list of its own properties, each name once; an array is the list of its elements.
  Strings are lists of code units below 256, the Latin-1 range.
\<close>

datatype jsval =
    JUndefined
  | JNull
  | JBool bool
  | JNum int
  | JStr string
  | JArr "jsval list"
  | JObj "(string \<times> jsval) list"

text \<open>A response of the HTTP transport: status, status text, content type, body.\<close>

record http_response =
  status :: int
  statusText :: string
  content_type :: "string option"
  data :: jsval

text \<open>
  What a \<open>throw\<close> carries. \<open>TypeError\<close> is raised by the engine (a property read on
  \<open>null\<close>, a call of something that is no function); \<open>Error\<close> is \<open>new Error(message)\<close>;
  \<open>AxiosError\<close> is what the HTTP library rejects with: a message, an error code when
  the connection failed, and, when the server answered, its response.
\<close>

datatype js_error =
    TypeError
  | Error string
  | AxiosError string "string option" "http_response option"

fun err_message :: "js_error \<Rightarrow> string" where
  "err_message TypeError = ''TypeError''"
| "err_message (Error m) = m"
| "err_message (AxiosError m c r) = m"

fun err_response :: "js_error \<Rightarrow> http_response option" where
  "err_response (AxiosError m c r) = r"
| "err_response e = None"

subsection \<open>Truthiness, typeof, property reads\<close>

fun js_truthy :: "jsval \<Rightarrow> bool" where
  "js_truthy JUndefined = False"
| "js_truthy JNull = False"
| "js_truthy (JBool b) = b"
| "js_truthy (JNum n) = (n \<noteq> 0)"
| "js_truthy (JStr s) = (s \<noteq> [])"
| "js_truthy (JArr xs) = True"
| "js_truthy (JObj ps) = True"

text \<open>\<open>typeof v === 'object'\<close>: true of objects, of arrays, and of \<open>null\<close>.\<close>

fun typeof_object :: "jsval \<Rightarrow> bool" where
  "typeof_object JNull = True"
| "typeof_object (JArr xs) = True"
| "typeof_object (JObj ps) = True"
| "typeof_object v = False"

fun is_nullish :: "jsval \<Rightarrow> bool" where
  "is_nullish JUndefined = True"
| "is_nullish JNull = True"
| "is_nullish v = False"

fun isArray :: "jsval \<Rightarrow> bool" where
  "isArray (JArr xs) = True"
| "isArray v = False"

definition is_digit :: "char \<Rightarrow> bool" where
  "is_digit c = (48 \<le> (of_char c :: int) \<and> (of_char c :: int) \<le> 57)"

fun int_of_digits :: "int \<Rightarrow> string \<Rightarrow> int" where
  "int_of_digits acc [] = acc"
| "int_of_digits acc (c # cs) = int_of_digits (10 * acc + ((of_char c :: int) - 48)) cs"

text \<open>
  An array index as a property name: the canonical decimal form of a number below
  \<open>2^32 - 1\<close> (\<open>''0''\<close>, or digits with no leading zero).
\<close>

definition parse_index :: "string \<Rightarrow> int option" where
  "parse_index k =
     (if k \<noteq> [] \<and> list_all is_digit k \<and> (hd k \<noteq> CHR ''0'' \<or> length k = 1)
         \<and> int_of_digits 0 k < 4294967295
      then Some (int_of_digits 0 k) else None)"

text \<open>
  The own property \<open>k\<close> of a value, if it has one. An array has its elements and
  \<open>length\<close>. The members that an object or an array inherits from its prototype
  (\<open>constructor\<close>, \<open>toString\<close>, \<open>__proto__\<close>, the array methods) are functions or
  prototype objects, not data, and are no values here: the code calls \<open>toString\<close>,
  modelled below, and every other name it reads is a fixed name that no prototype has.
  Only the resolver reads names that the configuration chooses; \<open>inherited_names\<close>
  below lists the names for which its read is not a read of data.
\<close>

fun own_prop :: "jsval \<Rightarrow> string \<Rightarrow> jsval option" where
  "own_prop (JObj ps) k = map_of ps k"
| "own_prop (JArr xs) k =
     (case parse_index k of
        Some i \<Rightarrow> (if i < int (length xs) then Some (xs ! nat i) else None)
      | None \<Rightarrow> (if k = ''length'' then Some (JNum (int (length xs))) else None))"
| "own_prop v k = None"

text \<open>\<open>v.k\<close> and \<open>v[k]\<close>: a TypeError on \<open>null\<close> and \<open>undefined\<close>, else the property or \<open>undefined\<close>.\<close>

definition js_get :: "jsval \<Rightarrow> string \<Rightarrow> js_error + jsval" where
  "js_get v k =
     (if is_nullish v then Inl TypeError
      else Inr (case own_prop v k of Some w \<Rightarrow> w | None \<Rightarrow> JUndefined))"

text \<open>\<open>v?.k\<close>: \<open>undefined\<close> on \<open>null\<close> and \<open>undefined\<close>.\<close>

definition js_get_opt :: "jsval \<Rightarrow> string \<Rightarrow> jsval" where
  "js_get_opt v k = (case own_prop v k of Some w \<Rightarrow> w | None \<Rightarrow> JUndefined)"

text \<open>\<open>a || b\<close> on values.\<close>

definition js_or :: "jsval \<Rightarrow> jsval \<Rightarrow> jsval" where
  "js_or a b = (if js_truthy a then a else b)"

subsection \<open>Strings\<close>

definition digit_char :: "int \<Rightarrow> char" where
  "digit_char n = char_of (48 + n mod 10)"

text \<open>The decimal digits of a number that is not negative.\<close>

function show_digits :: "int \<Rightarrow> string" where
  "show_digits n = (if n < 10 then [digit_char n] else show_digits (n div 10) @ [digit_char n])"
  by pat_completeness auto
termination
  by (relation "measure nat") auto

declare show_digits.simps [simp del]

definition show_int :: "int \<Rightarrow> string" where
  "show_int i = (if i < 0 then CHR ''-'' # show_digits (- i) else show_digits i)"

fun join_with :: "string \<Rightarrow> string list \<Rightarrow> string" where
  "join_with sep [] = []"
| "join_with sep [s] = s"
| "join_with sep (s # t # ss) = s @ sep @ join_with sep (t # ss)"

text \<open>
  The string form of a value (\<open>String(v)\<close>, a template literal, an element of \<open>join\<close>, a
  property name). An object has the inherited \<open>toString\<close> unless it has an own property
  of that name, which in JSON data is no function: the conversion throws. \<open>join\<close> writes
  \<open>null\<close> and \<open>undefined\<close> as the empty string.
\<close>

fun js_ToString :: "jsval \<Rightarrow> js_error + string"
  and js_join_parts :: "jsval list \<Rightarrow> js_error + string list" where
  "js_ToString JUndefined = Inr ''undefined''"
| "js_ToString JNull = Inr ''null''"
| "js_ToString (JBool b) = Inr (if b then ''true'' else ''false'')"
| "js_ToString (JNum n) = Inr (show_int n)"
| "js_ToString (JStr s) = Inr s"
| "js_ToString (JArr xs) =
     (case js_join_parts xs of Inl e \<Rightarrow> Inl e | Inr ss \<Rightarrow> Inr (join_with '','' ss))"
| "js_ToString (JObj ps) =
     (if map_of ps ''toString'' = None then Inr ''[object Object]'' else Inl TypeError)"
| "js_join_parts [] = Inr []"
| "js_join_parts (x # xs) =
     (case (if is_nullish x then Inr [] else js_ToString x) of
        Inl e \<Rightarrow> Inl e
      | Inr s \<Rightarrow> (case js_join_parts xs of Inl e \<Rightarrow> Inl e | Inr ss \<Rightarrow> Inr (s # ss)))"

text \<open>\<open>xs.join(sep)\<close>.\<close>

definition js_join :: "string \<Rightarrow> jsval list \<Rightarrow> js_error + string" where
  "js_join sep xs =
     (case js_join_parts xs of Inl e \<Rightarrow> Inl e | Inr ss \<Rightarrow> Inr (join_with sep ss))"

text \<open>
  A value whose string form is printed digit by digit: every number in it, and in the
  arrays it holds, is a safe integer. (From \<open>10^21\<close> on the engine prints an exponent,
  and above \<open>2^53\<close> it does not keep every integer apart. The string form of an object
  shows none of its numbers.)
\<close>

fun safe_numbers :: "jsval \<Rightarrow> bool" and safe_number_items :: "jsval list \<Rightarrow> bool" where
  "safe_numbers (JNum n) = (- 9007199254740991 \<le> n \<and> n \<le> 9007199254740991)"
| "safe_numbers (JArr xs) = safe_number_items xs"
| "safe_numbers v = True"
| "safe_number_items [] = True"
| "safe_number_items (x # xs) = (safe_numbers x \<and> safe_number_items xs)"

text \<open>The method call \<open>v.toString()\<close>: a TypeError on \<open>null\<close> and \<open>undefined\<close>.\<close>

definition call_toString :: "jsval \<Rightarrow> js_error + string" where
  "call_toString v = (if is_nullish v then Inl TypeError else js_ToString v)"

text \<open>
  \<open>toLowerCase\<close> on one code unit of the Latin-1 range: the letters \<open>A\<close> to \<open>Z\<close> and the
  accented capitals \<open>0xC0\<close> to \<open>0xDE\<close> (the multiplication sign \<open>0xD7\<close> apart) move up by
  32; every other code unit stays. The \<open>i\<close> flag of a regular expression compares
  code units the same way.
\<close>

definition lower_char :: "char \<Rightarrow> char" where
  "lower_char c =
     (if (65 \<le> (of_char c :: int) \<and> (of_char c :: int) \<le> 90)
         \<or> (192 \<le> (of_char c :: int) \<and> (of_char c :: int) \<le> 222 \<and> (of_char c :: int) \<noteq> 215)
      then char_of ((of_char c :: int) + 32) else c)"

definition toLowerCase :: "string \<Rightarrow> string" where
  "toLowerCase s = map lower_char s"

text \<open>\<open>s.startsWith(p)\<close>.\<close>

fun startsWith :: "string \<Rightarrow> string \<Rightarrow> bool" where
  "startsWith s [] = True"
| "startsWith [] (p # ps) = False"
| "startsWith (c # cs) (p # ps) = (c = p \<and> startsWith cs ps)"

text \<open>\<open>s.includes(p)\<close>.\<close>

fun str_includes :: "string \<Rightarrow> string \<Rightarrow> bool" where
  "str_includes [] p = (p = [])"
| "str_includes (c # cs) p = (startsWith (c # cs) p \<or> str_includes cs p)"

text \<open>\<open>s.split(sep)\<close> for a separator that is not empty.\<close>

fun split_acc :: "string \<Rightarrow> string \<Rightarrow> string \<Rightarrow> string list" where
  "split_acc sep acc [] = [rev acc]"
| "split_acc sep acc (c # cs) =
     (if startsWith (c # cs) sep
      then rev acc # split_acc sep [] (drop (length sep - 1) cs)
      else split_acc sep (c # acc) cs)"

definition js_split :: "string \<Rightarrow> string \<Rightarrow> string list" where
  "js_split sep s = split_acc sep [] s"

definition is_space :: "char \<Rightarrow> bool" where
  "is_space c = ((of_char c :: int) \<in> {9, 10, 11, 12, 13, 32, 160})"

definition trim :: "string \<Rightarrow> string" where
  "trim s = rev (dropWhile is_space (rev (dropWhile is_space s)))"

text \<open>\<open>s.replace(/\r?\n/g, '')\<close>.\<close>

fun strip_newlines :: "string \<Rightarrow> string" where
  "strip_newlines [] = []"
| "strip_newlines [c] = (if of_char c = (10 :: nat) then [] else [c])"
| "strip_newlines (c # d # cs) =
     (if of_char c = (13 :: nat) \<and> of_char d = (10 :: nat) then strip_newlines cs
      else if of_char c = (10 :: nat) then strip_newlines (d # cs)
      else c # strip_newlines (d # cs))"

section \<open>The field projector\<close>

text \<open>
  A column definition of the configured schema: \<open>key\<close> (the output key), \<open>jiraField\<close>
  (the dotted source path), \<open>type\<close> and \<open>labelToCheck\<close>, each possibly missing. An entry
  of the schema can itself be \<open>null\<close>.
\<close>

record column =
  col_key :: "string option"
  jiraField :: "string option"
  col_type :: "string option"
  labelToCheck :: "string option"

text \<open>
  The client after its constructor: base URL, token, and what the configuration manager
  hands out (user name, default query, column schema, the broad field list).
\<close>

record client =
  baseUrl :: string
  pat :: "string option"
  cfg_username :: "string option"
  cfg_jql :: "string option"
  defaultColumns :: "column option list"
  allPossibleFields :: "string list"

text \<open>
  Date rendering depends on the host's locale and time zone: the two renderers are
  parameters.
\<close>

record date_env =
  toLocaleDateString :: "jsval \<Rightarrow> string"
  toLocaleString :: "jsval \<Rightarrow> string"

text \<open>\<open>s.replace(/\/$/, '')\<close>: one trailing slash is dropped.\<close>

definition cleanBaseUrl :: "string \<Rightarrow> string" where
  "cleanBaseUrl s = (if s \<noteq> [] \<and> last s = CHR ''/'' then butlast s else s)"

fun map_err :: "('a \<Rightarrow> 'e + 'b) \<Rightarrow> 'a list \<Rightarrow> 'e + 'b list" where
  "map_err f [] = Inr []"
| "map_err f (x # xs) =
     (case f x of
        Inl e \<Rightarrow> Inl e
      | Inr y \<Rightarrow> (case map_err f xs of Inl e \<Rightarrow> Inl e | Inr ys \<Rightarrow> Inr (y # ys)))"

text \<open>\<open>xs.some(f)\<close>: stops at the first element that satisfies \<open>f\<close>.\<close>

fun some_err :: "('a \<Rightarrow> 'e + bool) \<Rightarrow> 'a list \<Rightarrow> 'e + bool" where
  "some_err f [] = Inr False"
| "some_err f (x # xs) =
     (case f x of
        Inl e \<Rightarrow> Inl e
      | Inr b \<Rightarrow> (if b then Inr True else some_err f xs))"

text \<open>The first of a list of values that is truthy (what \<open>a || b || c\<close> picks).\<close>

fun first_truthy :: "jsval list \<Rightarrow> jsval option" where
  "first_truthy [] = None"
| "first_truthy (v # vs) = (if js_truthy v then Some v else first_truthy vs)"

text \<open>\<open>v.k1 || v.k2 || ... || v.toString()\<close>.\<close>

fun probe :: "jsval \<Rightarrow> string list \<Rightarrow> js_error + jsval" where
  "probe v [] = (case call_toString v of Inl e \<Rightarrow> Inl e | Inr s \<Rightarrow> Inr (JStr s))"
| "probe v (k # ks) =
     (case js_get v k of
        Inl e \<Rightarrow> Inl e
      | Inr w \<Rightarrow> (if js_truthy w then Inr w else probe v ks))"

fun walk_parts :: "jsval \<Rightarrow> string list \<Rightarrow> js_error + jsval" where
  "walk_parts v [] = Inr v"
| "walk_parts v (part # parts) =
     (if js_truthy v \<and> typeof_object v
      then (case js_get v part of Inl e \<Rightarrow> Inl e | Inr w \<Rightarrow> walk_parts w parts)
      else Inr JNull)"

definition getFieldValue :: "jsval \<Rightarrow> string \<Rightarrow> js_error + jsval" where
  "getFieldValue issue field =
     (if \<not> js_truthy issue \<or> field = [] then Inr JNull
      else if field = ''key'' then js_get issue ''key''
      else (case js_get issue ''fields'' of
              Inl e \<Rightarrow> Inl e
            | Inr flds \<Rightarrow>
                (if \<not> js_truthy flds then Inr JNull
                 else walk_parts flds (js_split ''.'' field))))"

definition str_result :: "js_error + string \<Rightarrow> js_error + jsval" where
  "str_result r = (case r of Inl e \<Rightarrow> Inl e | Inr s \<Rightarrow> Inr (JStr s))"

text \<open>
  \<open>new Date(v)\<close> turns an object or an array into a primitive first: \<open>valueOf\<close> gives
  the object back, so the string form is taken, and the constructor throws where that
  throws. What the date then reads is left to the renderers.
\<close>

definition date_argument :: "jsval \<Rightarrow> js_error + unit" where
  "date_argument v =
     (if typeof_object v \<and> \<not> is_nullish v
      then (case js_ToString v of Inl e \<Rightarrow> Inl e | Inr s \<Rightarrow> Inr ())
      else Inr ())"

definition formatFieldValue :: "date_env \<Rightarrow> jsval \<Rightarrow> string option \<Rightarrow> js_error + jsval" where
  "formatFieldValue env v ty =
     (if is_nullish v then Inr (JStr (if ty = Some ''badge'' then ''Unknown'' else []))
      else if ty = Some ''link'' then Inr v
      else if ty = Some ''confluence'' then
        (case v of
           JStr s \<Rightarrow> (if startsWith s ''http'' then Inr v else str_result (call_toString v))
         | _ \<Rightarrow> (if typeof_object v then probe v [''url'', ''value'', ''href'']
                else str_result (call_toString v)))
      else if ty = Some ''badge'' then
        (if typeof_object v then probe v [''name'', ''displayName'']
         else str_result (call_toString v))
      else if ty = Some ''date'' then
        (case date_argument v of Inl e \<Rightarrow> Inl e | Inr u \<Rightarrow> Inr (JStr (toLocaleDateString env v)))
      else if ty = Some ''datetime'' then
        (case date_argument v of Inl e \<Rightarrow> Inl e | Inr u \<Rightarrow> Inr (JStr (toLocaleString env v)))
      else
        (case v of
           JArr xs \<Rightarrow>
             (if xs = [] then Inr (JStr [])
              else if typeof_object (hd xs) then
                (case map_err (\<lambda>item. probe item [''name'']) xs of
                   Inl e \<Rightarrow> Inl e
                 | Inr ys \<Rightarrow> str_result (js_join '', '' ys))
              else str_result (js_join '', '' xs))
         | _ \<Rightarrow> (if typeof_object v then probe v [''displayName'', ''name'']
                else str_result (call_toString v))))"

text \<open>The callback of \<open>labels.some\<close> in \<open>checkLabel\<close>.\<close>

definition label_matches :: "string \<Rightarrow> jsval \<Rightarrow> js_error + bool" where
  "label_matches l label =
     (case (case label of JStr s \<Rightarrow> Inr (JStr s) | _ \<Rightarrow> probe label [''name'']) of
        Inl e \<Rightarrow> Inl e
      | Inr (JStr s) \<Rightarrow> Inr (toLowerCase s = toLowerCase l)
      | Inr _ \<Rightarrow> Inl TypeError)"

definition checkLabel :: "jsval \<Rightarrow> string \<Rightarrow> js_error + jsval" where
  "checkLabel labels l =
     (if \<not> js_truthy labels then Inr (JStr ''No'')
      else (case labels of
              JArr xs \<Rightarrow>
                (case some_err (label_matches l) xs of
                   Inl e \<Rightarrow> Inl e
                 | Inr b \<Rightarrow> Inr (JStr (if b then ''Yes'' else ''No'')))
            | JStr s \<Rightarrow>
                Inr (JStr (if str_includes (toLowerCase s) (toLowerCase l) then ''Yes'' else ''No''))
            | _ \<Rightarrow> Inr (JStr ''No'')))"

subsection \<open>Rows\<close>

text \<open>
  A formatted row is an object built by assignments: its own properties in the order a
  serialiser enumerates them (the batch of wiki summaries is built the same way). An assignment to an existing name keeps the name's place;
  a new array-index name goes among the index names in ascending order, before all
  other names; any other new name goes last; \<open>__proto__\<close> names the prototype and
  creates no property.
\<close>

type_synonym row = "(string \<times> jsval) list"

fun update_prop :: "(string \<times> 'a) list \<Rightarrow> string \<Rightarrow> 'a \<Rightarrow> (string \<times> 'a) list" where
  "update_prop [] k v = []"
| "update_prop ((k', v') # r) k v =
     (if k' = k then (k, v) # r else (k', v') # update_prop r k v)"

fun insert_index :: "(string \<times> 'a) list \<Rightarrow> string \<Rightarrow> int \<Rightarrow> 'a \<Rightarrow> (string \<times> 'a) list" where
  "insert_index [] k i v = [(k, v)]"
| "insert_index ((k', v') # r) k i v =
     (case parse_index k' of
        Some j \<Rightarrow> (if j < i then (k', v') # insert_index r k i v else (k, v) # (k', v') # r)
      | None \<Rightarrow> (k, v) # (k', v') # r)"

definition obj_set :: "(string \<times> 'a) list \<Rightarrow> string \<Rightarrow> 'a \<Rightarrow> (string \<times> 'a) list" where
  "obj_set r k v =
     (if k = ''__proto__'' then r
      else if k \<in> set (map fst r) then update_prop r k v
      else (case parse_index k of Some i \<Rightarrow> insert_index r k i v | None \<Rightarrow> r @ [(k, v)]))"

text \<open>The callback of \<open>columns.forEach\<close>, on the row built so far.\<close>

definition format_column :: "date_env \<Rightarrow> jsval \<Rightarrow> row \<Rightarrow> column option \<Rightarrow> js_error + row" where
  "format_column env issue r c =
     (case c of
        None \<Rightarrow> Inr r
      | Some col \<Rightarrow>
          (case (jiraField col, col_key col) of
             (Some f, Some k) \<Rightarrow>
               (if f = [] \<or> k = [] then Inr r
                else (case getFieldValue issue f of
                        Inl e \<Rightarrow> Inl e
                      | Inr fv \<Rightarrow>
                          (case (if col_type col = Some ''labelCheck''
                                    \<and> labelToCheck col \<noteq> None \<and> labelToCheck col \<noteq> Some []
                                 then checkLabel fv (the (labelToCheck col))
                                 else formatFieldValue env fv (col_type col)) of
                             Inl e \<Rightarrow> Inl e
                           | Inr cell \<Rightarrow> Inr (obj_set r k cell))))
           | _ \<Rightarrow> Inr r))"

fun format_columns :: "date_env \<Rightarrow> jsval \<Rightarrow> row \<Rightarrow> column option list \<Rightarrow> js_error + row" where
  "format_columns env issue r [] = Inr r"
| "format_columns env issue r (c # cs) =
     (case format_column env issue r c of
        Inl e \<Rightarrow> Inl e
      | Inr r' \<Rightarrow> format_columns env issue r' cs)"

text \<open>The callback of \<open>issues.map\<close>.\<close>

definition format_issue :: "date_env \<Rightarrow> client \<Rightarrow> jsval \<Rightarrow> js_error + row" where
  "format_issue env cl issue =
     (case js_get issue ''key'' of
        Inl e \<Rightarrow> Inl e
      | Inr k \<Rightarrow>
          (case js_ToString k of
             Inl e \<Rightarrow> Inl e
           | Inr ks \<Rightarrow>
               format_columns env issue
                 [(''url'', JStr (cleanBaseUrl (baseUrl cl) @ ''/browse/'' @ ks)),
                  (''key'', if js_truthy k then k else JStr [])]
                 (defaultColumns cl)))"

definition formatIssues :: "date_env \<Rightarrow> client \<Rightarrow> jsval \<Rightarrow> js_error + row list" where
  "formatIssues env cl issues =
     (case issues of
        JArr xs \<Rightarrow> map_err (format_issue env cl) xs
      | _ \<Rightarrow> Inr [])"

subsection \<open>The resolver as the specification words it\<close>

text \<open>
  The specification's \<open>resolve\<close>: split the path on dots and walk the field bag one
  segment at a time. The walk finds a value, or it stops because a segment is missing
  or the value reached is not traversable. Where it stops is kept: at the last segment,
  missing from a traversable value, or before. \<open>resolve_spec\<close> is this reading, to be
  compared with \<open>getFieldValue\<close>.
\<close>

definition traversable :: "jsval \<Rightarrow> bool" where
  "traversable v = (js_truthy v \<and> typeof_object v)"

datatype resolution = Found jsval | Missing_last | Missing_before

fun resolve_parts :: "jsval \<Rightarrow> string list \<Rightarrow> resolution" where
  "resolve_parts v [] = Found v"
| "resolve_parts v (p # ps) =
     (if traversable v
      then (case own_prop v p of
              None \<Rightarrow> (if ps = [] then Missing_last else Missing_before)
            | Some w \<Rightarrow> resolve_parts w ps)
      else Missing_before)"

definition resolve_spec :: "jsval \<Rightarrow> string \<Rightarrow> resolution" where
  "resolve_spec issue path = resolve_parts (js_get_opt issue ''fields'') (js_split ''.'' path)"

text \<open>
  The names that an object or an array inherits from its prototype. A path segment of
  such a name reads a function or a prototype object, which is no field of the issue;
  an own path has no such segment.
\<close>

definition inherited_names :: "string list" where
  "inherited_names =
     [''constructor'', ''__proto__'', ''__defineGetter__'', ''__defineSetter__'',
      ''__lookupGetter__'', ''__lookupSetter__'', ''hasOwnProperty'', ''isPrototypeOf'',
      ''propertyIsEnumerable'', ''toLocaleString'', ''toString'', ''valueOf'',
      ''at'', ''concat'', ''copyWithin'', ''entries'', ''every'', ''fill'', ''filter'', ''find'',
      ''findIndex'', ''findLast'', ''findLastIndex'', ''flat'', ''flatMap'', ''forEach'',
      ''includes'', ''indexOf'', ''join'', ''keys'', ''lastIndexOf'', ''map'', ''pop'', ''push'',
      ''reduce'', ''reduceRight'', ''reverse'', ''shift'', ''slice'', ''some'', ''sort'', ''splice'',
      ''toReversed'', ''toSorted'', ''toSpliced'', ''unshift'', ''values'', ''with'']"

definition own_path :: "string \<Rightarrow> bool" where
  "own_path path = list_all (\<lambda>p. p \<notin> set inherited_names) (js_split ''.'' path)"

subsection \<open>Words of the specification about the formatters\<close>

text \<open>
  An entry of a label list as the specification has it: a string, or a label object,
  that is an object whose \<open>name\<close> is a string that is not empty. \<open>label_name\<close> is the
  text such an entry stands for.
\<close>

fun is_label_entry :: "jsval \<Rightarrow> bool" where
  "is_label_entry (JStr s) = True"
| "is_label_entry (JObj ps) =
     (case map_of ps ''name'' of Some (JStr n) \<Rightarrow> n \<noteq> [] | _ \<Rightarrow> False)"
| "is_label_entry v = False"

fun label_name :: "jsval \<Rightarrow> string" where
  "label_name (JStr s) = s"
| "label_name (JObj ps) = (case map_of ps ''name'' of Some (JStr n) \<Rightarrow> n | _ \<Rightarrow> [])"
| "label_name v = []"

subsection \<open>Words of the specification about rows\<close>

text \<open>
  A column definition is applied when it is there and has an output key and a source
  path, neither empty. The output keys of a schema are the keys of its applied columns,
  in schema order.
\<close>

definition valid_column :: "column option \<Rightarrow> bool" where
  "valid_column c =
     (case c of
        None \<Rightarrow> False
      | Some col \<Rightarrow>
          (case (jiraField col, col_key col) of
             (Some f, Some k) \<Rightarrow> f \<noteq> [] \<and> k \<noteq> []
           | _ \<Rightarrow> False))"

definition column_key :: "column option \<Rightarrow> string" where
  "column_key c = the (col_key (the c))"

definition column_field :: "column option \<Rightarrow> string" where
  "column_field c = the (jiraField (the c))"

definition output_keys :: "column option list \<Rightarrow> string list" where
  "output_keys cs = map column_key (filter valid_column cs)"

text \<open>
  Output keys that an object keeps in assignment order: distinct, no array index, and
  none of \<open>url\<close>, \<open>key\<close>, \<open>__proto__\<close>.
\<close>

definition ordinary_keys :: "string list \<Rightarrow> bool" where
  "ordinary_keys ks =
     (distinct ks \<and>
      list_all (\<lambda>k. parse_index k = None \<and> k \<noteq> ''url'' \<and> k \<noteq> ''key'' \<and> k \<noteq> ''__proto__'') ks)"

text \<open>
  Plain data: no array holds \<open>null\<close> or \<open>undefined\<close>, no object has an own property
  \<open>toString\<close> (which would hide the inherited function), and the \<open>name\<close> of an object,
  when it is truthy, is a string. A readable issue, for a schema: the issue is there,
  and its key and the value every applied column resolves to are plain.
\<close>

fun name_ok :: "jsval option \<Rightarrow> bool" where
  "name_ok None = True"
| "name_ok (Some (JStr n)) = True"
| "name_ok (Some w) = (\<not> js_truthy w)"

fun plain :: "jsval \<Rightarrow> bool"
  and plain_items :: "jsval list \<Rightarrow> bool"
  and plain_props :: "(string \<times> jsval) list \<Rightarrow> bool" where
  "plain (JArr xs) = plain_items xs"
| "plain (JObj ps) =
     (map_of ps ''toString'' = None \<and> name_ok (map_of ps ''name'') \<and> plain_props ps)"
| "plain v = True"
| "plain_items [] = True"
| "plain_items (x # xs) = (\<not> is_nullish x \<and> plain x \<and> plain_items xs)"
| "plain_props [] = True"
| "plain_props (p # ps) = (plain (snd p) \<and> plain_props ps)"

definition readable_issue :: "column option list \<Rightarrow> jsval \<Rightarrow> bool" where
  "readable_issue cs issue =
     (\<not> is_nullish issue \<and> plain (js_get_opt issue ''key'') \<and>
      list_all (\<lambda>c. \<not> valid_column c \<or>
                   (case getFieldValue issue (column_field c) of
                      Inl e \<Rightarrow> False
                    | Inr v \<Rightarrow> plain v)) cs)"

section \<open>The tracker client\<close>

text \<open>
  One search request, as the transport sees it. The credential is one of: a bearer token
  (\<open>Authorization: Bearer t\<close>), a token header (\<open>name: value\<close>), or basic authentication
  (\<open>Authorization: Basic base64(user:token)\<close>, kept here as user and token). Every
  request also carries \<open>Accept\<close> and \<open>Content-Type: application/json\<close> and asks for at
  most 100 results.
\<close>

datatype auth =
    BearerAuth string
  | HeaderAuth string string
  | BasicAuth string string

record request =
  req_url :: string
  req_auth :: auth
  req_jql :: "string option"
  req_fields :: "string option list"
  req_timeout :: "int option"

text \<open>The transport answers a request, or fails to (with a message and an error code).\<close>

datatype outcome =
    Answered http_response
  | NoAnswer string "string option"

type_synonym transport = "request \<Rightarrow> outcome"

text \<open>
  \<open>axios.post\<close> with \<open>validateStatus: status >= 200 && status < 600\<close>: any other status
  rejects, as a failed connection does.
\<close>

definition axios_post :: "transport \<Rightarrow> request \<Rightarrow> js_error + http_response" where
  "axios_post tr rq =
     (case tr rq of
        NoAnswer m c \<Rightarrow> Inl (AxiosError m c None)
      | Answered r \<Rightarrow>
          (if 200 \<le> status r \<and> status r < 600 then Inr r
           else Inl (AxiosError (''Request failed with status code '' @ show_int (status r)) None
                       (Some r))))"

text \<open>\<open>a || b\<close> on optional strings: the empty string is falsy.\<close>

definition str_truthy :: "string option \<Rightarrow> bool" where
  "str_truthy t = (t \<noteq> None \<and> t \<noteq> Some [])"

definition or_str :: "string option \<Rightarrow> string option \<Rightarrow> string option" where
  "or_str a b = (if str_truthy a then a else b)"

text \<open>\<open>t.trim().replace(/\r?\n/g, '')\<close>; a TypeError when there is no string.\<close>

definition clean_token :: "string option \<Rightarrow> js_error + string" where
  "clean_token t = (case t of None \<Rightarrow> Inl TypeError | Some s \<Rightarrow> Inr (strip_newlines (trim s)))"

definition search_request :: "client \<Rightarrow> auth \<Rightarrow> string option \<Rightarrow> string option list \<Rightarrow> int option \<Rightarrow> request" where
  "search_request cl a jql flds tmo =
     \<lparr>req_url = cleanBaseUrl (baseUrl cl) @ ''/rest/api/2/search'', req_auth = a,
      req_jql = jql, req_fields = flds, req_timeout = tmo\<rparr>"

fun typeof_name :: "jsval \<Rightarrow> string" where
  "typeof_name JUndefined = ''undefined''"
| "typeof_name JNull = ''object''"
| "typeof_name (JBool b) = ''boolean''"
| "typeof_name (JNum n) = ''number''"
| "typeof_name (JStr s) = ''string''"
| "typeof_name (JArr xs) = ''object''"
| "typeof_name (JObj ps) = ''object''"

text \<open>\<open>typeof d === 'string' && d.includes(p)\<close>.\<close>

fun string_includes :: "jsval \<Rightarrow> string \<Rightarrow> bool" where
  "string_includes (JStr s) p = str_includes s p"
| "string_includes v p = False"

text \<open>
  What \<open>tryBearerTokenRequest\<close> does with a response: the response itself when it is a
  200 with a JSON object, an error otherwise.
\<close>

definition check_bearer_response :: "http_response \<Rightarrow> js_error + http_response" where
  "check_bearer_response r =
     (if status r \<noteq> 200 then
        (if status r = 401 \<or> status r = 403 then
           Inl (Error ''Authentication failed. Please check your Bearer token (PAT) is valid and has not expired.'')
         else if status r = 302 then
           Inl (Error ''Authentication redirect detected. Please verify your Bearer token is correct.'')
         else if string_includes (data r) ''<!DOCTYPE'' \<or> string_includes (data r) ''<html'' then
           Inl (Error ''Received HTML instead of JSON. Please check your Bearer token is valid.'')
         else if js_truthy (data r) \<and> typeof_object (data r)
                 \<and> js_truthy (js_get_opt (data r) ''errorMessages'') then
           (case js_get_opt (data r) ''errorMessages'' of
              JArr ms \<Rightarrow>
                (case js_join ''; '' ms of
                   Inl e \<Rightarrow> Inl e
                 | Inr m \<Rightarrow> Inl (Error (''Jira API error: '' @ m)))
            | _ \<Rightarrow> Inl TypeError)
         else
           Inl (Error (''HTTP '' @ show_int (status r) @ '': '' @
                       (if statusText r \<noteq> [] then statusText r else ''Unknown error''))))
      else if str_includes (case content_type r of None \<Rightarrow> [] | Some c \<Rightarrow> c) ''text/html''
              \<or> string_includes (data r) ''<!DOCTYPE'' then
        Inl (Error ''Received HTML response instead of JSON. Please verify your Bearer token.'')
      else if \<not> js_truthy (data r) \<or> \<not> typeof_object (data r) then
        Inl (Error (''Invalid response format from Jira API. Expected JSON but got: '' @
                    typeof_name (data r)))
      else Inr r)"

text \<open>
  Every strategy returns the requests it sent, in order, and its result. The \<open>catch\<close> of
  \<open>tryBearerTokenRequest\<close> logs and rethrows.
\<close>

definition tryBearerTokenRequest ::
  "client \<Rightarrow> transport \<Rightarrow> string option \<Rightarrow> string option list \<Rightarrow> string option
     \<Rightarrow> request list \<times> (js_error + http_response)" where
  "tryBearerTokenRequest cl tr jql flds token =
     (case clean_token (or_str token (pat cl)) of
        Inl e \<Rightarrow> ([], Inl e)
      | Inr t \<Rightarrow>
          (let rq = search_request cl (BearerAuth t) jql flds (Some 30000) in
           (case axios_post tr rq of
              Inl e \<Rightarrow> ([rq], Inl e)
            | Inr r \<Rightarrow> ([rq], check_bearer_response r))))"

text \<open>
  The header formats of \<open>tryPATTokenRequest\<close>, in order; each text is split at the first
  \<open>': '\<close> into header name and header value.
\<close>

definition headerFormats :: "string \<Rightarrow> string list" where
  "headerFormats t =
     [''X-API-Token: '' @ t, ''X-Auth-Token: '' @ t,
      ''Authorization: Token '' @ t, ''Authorization: PAT '' @ t]"

definition header_auth :: "string \<Rightarrow> auth" where
  "header_auth h =
     (case js_split '': '' h of
        n # v # rest \<Rightarrow> HeaderAuth n v
      | _ \<Rightarrow> HeaderAuth h ''undefined'')"

text \<open>
  The loop of \<open>tryPATTokenRequest\<close> over the formats still to try: a 200 returns; any
  other answer goes on to the next format; a rejected request goes on too, unless the
  format is the last, whose error is thrown.
\<close>

fun pat_loop ::
  "client \<Rightarrow> transport \<Rightarrow> string option \<Rightarrow> string option list \<Rightarrow> string list
     \<Rightarrow> request list \<times> (js_error + http_response)" where
  "pat_loop cl tr jql flds [] = ([], Inl (Error ''All PAT token header formats failed''))"
| "pat_loop cl tr jql flds (h # hs) =
     (let rq = search_request cl (header_auth h) jql flds (Some 30000) in
      (case axios_post tr rq of
         Inl e \<Rightarrow>
           (if hs = [] then ([rq], Inl e)
            else (case pat_loop cl tr jql flds hs of (rqs, res) \<Rightarrow> (rq # rqs, res)))
       | Inr r \<Rightarrow>
           (if status r = 200 then ([rq], Inr r)
            else (case pat_loop cl tr jql flds hs of (rqs, res) \<Rightarrow> (rq # rqs, res)))))"

definition tryPATTokenRequest ::
  "client \<Rightarrow> transport \<Rightarrow> string option \<Rightarrow> string option list
     \<Rightarrow> request list \<times> (js_error + http_response)" where
  "tryPATTokenRequest cl tr jql flds =
     (case clean_token (pat cl) of
        Inl e \<Rightarrow> ([], Inl e)
      | Inr t \<Rightarrow> pat_loop cl tr jql flds (headerFormats t))"

text \<open>
  The user names of \<open>tryBasicAuthRequest\<close>: bare, with the domain, and the smart choice
  (bare when it holds an \<open>@\<close>, with the domain otherwise).
\<close>

definition usernameFormats :: "string \<Rightarrow> string list" where
  "usernameFormats u =
     [u, u @ ''@nutanix.com'', if str_includes u ''@'' then u else u @ ''@nutanix.com'']"

text \<open>
  \<open>d?.message?.includes('Basic Authentication has been disabled')\<close>: false when there is
  no message; a search in a string; a search among the elements of an array; a TypeError
  for any other message, which has no \<open>includes\<close>.
\<close>

definition basic_disabled :: "jsval \<Rightarrow> js_error + bool" where
  "basic_disabled d =
     (case js_get_opt d ''message'' of
        JUndefined \<Rightarrow> Inr False
      | JNull \<Rightarrow> Inr False
      | JStr m \<Rightarrow> Inr (str_includes m ''Basic Authentication has been disabled'')
      | JArr ms \<Rightarrow> Inr (JStr ''Basic Authentication has been disabled'' \<in> set ms)
      | _ \<Rightarrow> Inl TypeError)"

text \<open>What one round of the loop of \<open>tryBasicAuthRequest\<close> does with the answer, inside its \<open>try\<close>.\<close>

datatype 'a round = Return 'a | Continue | Throw js_error

definition basic_round :: "http_response \<Rightarrow> http_response round" where
  "basic_round r =
     (if status r = 200 then Return r
      else (case (if status r = 403 then basic_disabled (data r) else Inr False) of
              Inl e \<Rightarrow> Throw e
            | Inr True \<Rightarrow> Continue
            | Inr False \<Rightarrow>
                (case js_ToString (if js_truthy (js_get_opt (data r) ''message'')
                                   then js_get_opt (data r) ''message''
                                   else JStr (statusText r)) of
                   Inl e \<Rightarrow> Throw e
                 | Inr m \<Rightarrow> Throw (Error (''HTTP '' @ show_int (status r) @ '': '' @ m)))))"

text \<open>
  The \<open>catch\<close> of that loop: an error that carries a 403 answer saying basic
  authentication is disabled goes on to the next name (the test can itself throw, out of
  the loop); otherwise the error is thrown when the name equals the last name of the
  list, and the loop goes on when it does not.
\<close>

definition basic_catch :: "js_error \<Rightarrow> string \<Rightarrow> string \<Rightarrow> unit round" where
  "basic_catch e u lastu =
     (case (case err_response e of
              None \<Rightarrow> Inr False
            | Some r \<Rightarrow> (if status r = 403 then basic_disabled (data r) else Inr False)) of
        Inl e' \<Rightarrow> Throw e'
      | Inr True \<Rightarrow> Continue
      | Inr False \<Rightarrow> (if u = lastu then Throw e else Continue))"

fun basic_loop ::
  "client \<Rightarrow> transport \<Rightarrow> string option \<Rightarrow> string option list \<Rightarrow> string \<Rightarrow> string
     \<Rightarrow> string list \<Rightarrow> request list \<times> (js_error + http_response)" where
  "basic_loop cl tr jql flds t lastu [] =
     ([], Inl (Error ''Basic Authentication has been disabled on this instance''))"
| "basic_loop cl tr jql flds t lastu (u # us) =
     (let rq = search_request cl (BasicAuth u t) jql flds None;
          next = (case basic_loop cl tr jql flds t lastu us of (rqs, res) \<Rightarrow> (rq # rqs, res));
          caught = (\<lambda>e. case basic_catch e u lastu of
                           Throw e' \<Rightarrow> ([rq], Inl e')
                         | _ \<Rightarrow> next)
      in (case axios_post tr rq of
            Inl e \<Rightarrow> caught e
          | Inr r \<Rightarrow>
              (case basic_round r of
                 Return r' \<Rightarrow> ([rq], Inr r')
               | Continue \<Rightarrow> next
               | Throw e \<Rightarrow> caught e)))"

text \<open>\<open>this.jiraConfig.username || 'namratha.singh'\<close>.\<close>

definition username_of :: "client \<Rightarrow> string" where
  "username_of cl =
     (if str_truthy (cfg_username cl) then the (cfg_username cl) else ''namratha.singh'')"

definition tryBasicAuthRequest ::
  "client \<Rightarrow> transport \<Rightarrow> string option \<Rightarrow> string option list
     \<Rightarrow> request list \<times> (js_error + http_response)" where
  "tryBasicAuthRequest cl tr jql flds =
     (case clean_token (pat cl) of
        Inl e \<Rightarrow> ([], Inl e)
      | Inr t \<Rightarrow>
          basic_loop cl tr jql flds t (last (usernameFormats (username_of cl)))
            (usernameFormats (username_of cl)))"

text \<open>The authentication methods of \<open>makeJiraRequest\<close>, by name.\<close>

datatype auth_method = BearerToken | PATTokenHeader | BasicAuthMethod

definition authMethods :: "string option \<Rightarrow> auth_method list" where
  "authMethods tokenToUse =
     (if \<not> str_truthy tokenToUse then [BearerToken, PATTokenHeader, BasicAuthMethod]
      else [BearerToken])"

definition run_method ::
  "client \<Rightarrow> transport \<Rightarrow> string option \<Rightarrow> string option list \<Rightarrow> string option \<Rightarrow> auth_method
     \<Rightarrow> request list \<times> (js_error + http_response)" where
  "run_method cl tr jql flds tokenToUse m =
     (case m of
        BearerToken \<Rightarrow> tryBearerTokenRequest cl tr jql flds tokenToUse
      | PATTokenHeader \<Rightarrow> tryPATTokenRequest cl tr jql flds
      | BasicAuthMethod \<Rightarrow> tryBasicAuthRequest cl tr jql flds)"

text \<open>
  The loop of \<open>makeJiraRequest\<close>: the first method that returns ends it; the error of one
  that throws is kept and the next method is tried; when none is left, the last error's
  message goes into the error thrown.
\<close>

fun auth_loop ::
  "client \<Rightarrow> transport \<Rightarrow> string option \<Rightarrow> string option list \<Rightarrow> string option
     \<Rightarrow> js_error list \<Rightarrow> auth_method list \<Rightarrow> request list \<times> (js_error + http_response)" where
  "auth_loop cl tr jql flds tokenToUse errors [] =
     ([], Inl (Error (''All authentication methods failed. Last error: '' @
                      (if errors \<noteq> [] \<and> err_message (last errors) \<noteq> []
                       then err_message (last errors) else ''Unknown error''))))"
| "auth_loop cl tr jql flds tokenToUse errors (m # ms) =
     (case run_method cl tr jql flds tokenToUse m of
        (rqs, Inr r) \<Rightarrow> (rqs, Inr r)
      | (rqs, Inl e) \<Rightarrow>
          (case auth_loop cl tr jql flds tokenToUse (errors @ [e]) ms of
             (rqs', res) \<Rightarrow> (rqs @ rqs', res)))"

definition makeJiraRequest ::
  "client \<Rightarrow> transport \<Rightarrow> string option \<Rightarrow> string option list \<Rightarrow> string option
     \<Rightarrow> request list \<times> (js_error + http_response)" where
  "makeJiraRequest cl tr jql flds token =
     (let tokenToUse = or_str token (pat cl)
      in auth_loop cl tr jql flds tokenToUse [] (authMethods tokenToUse))"

text \<open>The constructor's \<open>validateConfiguration\<close>: a client exists only with a base URL and a token.\<close>

definition validateConfiguration :: "client \<Rightarrow> bool" where
  "validateConfiguration cl = (baseUrl cl \<noteq> [] \<and> str_truthy (pat cl))"

subsection \<open>Words of the specification about the strategies\<close>

text \<open>The one request of the bearer strategy, for a token \<open>t\<close>.\<close>

definition bearer_request :: "client \<Rightarrow> string option \<Rightarrow> string option list \<Rightarrow> string \<Rightarrow> request" where
  "bearer_request cl jql flds t = search_request cl (BearerAuth t) jql flds (Some 30000)"

subsection \<open>Searches\<close>

text \<open>
  \<open>extractErrorMessage\<close>. The error messages of a tracker answer are an array. A string
  in their place has a length but no \<open>join\<close>, and so has an object with an own
  \<open>length\<close> that is a positive number or \<open>true\<close>: the call throws. The second test
  returns the answer's \<open>message\<close>, whatever value it is.
\<close>

definition positive_length :: "jsval \<Rightarrow> bool" where
  "positive_length v =
     (case js_get_opt v ''length'' of JNum n \<Rightarrow> 0 < n | JBool b \<Rightarrow> b | _ \<Rightarrow> False)"

definition status_message :: "http_response \<Rightarrow> string" where
  "status_message r =
     (if status r = 401 then ''Authentication failed. Please check your PAT token in jira-key-private.txt''
      else if status r = 403 then ''Access forbidden. Please check your Jira permissions.''
      else if status r = 404 then ''Resource not found. Please check your Jira URL and filter ID.''
      else if status r = 500 then ''Jira server error. Please try again later.''
      else if status r = 503 then ''Jira service unavailable. Please try again later.''
      else ''HTTP '' @ show_int (status r) @ '': '' @ statusText r)"

definition err_code :: "js_error \<Rightarrow> string option" where
  "err_code e = (case e of AxiosError m c r \<Rightarrow> c | _ \<Rightarrow> None)"

definition extract_fallback :: "client \<Rightarrow> js_error \<Rightarrow> jsval" where
  "extract_fallback cl e =
     (if err_code e = Some ''ENOTFOUND'' \<or> err_code e = Some ''ECONNREFUSED'' then
        JStr (''Cannot connect to '' @ baseUrl cl @
              ''. Please check your network connection and VPN status.'')
      else if err_code e = Some ''ECONNABORTED'' \<or> str_includes (err_message e) ''timeout'' then
        JStr ''Request timed out. Please check your network connection.''
      else JStr (if err_message e \<noteq> [] then err_message e else ''Unknown error occurred''))"

definition extractErrorMessage :: "client \<Rightarrow> js_error \<Rightarrow> js_error + jsval" where
  "extractErrorMessage cl e =
     (case err_response e of
        None \<Rightarrow> Inr (extract_fallback cl e)
      | Some r \<Rightarrow>
          (case (case js_get_opt (data r) ''errorMessages'' of
                   JArr ms \<Rightarrow> (if ms \<noteq> [] then str_result (js_join ''; '' ms) else Inr JUndefined)
                 | JStr m \<Rightarrow> (if m \<noteq> [] then Inl TypeError else Inr JUndefined)
                 | JObj ps \<Rightarrow> (if positive_length (JObj ps) then Inl TypeError else Inr JUndefined)
                 | _ \<Rightarrow> Inr JUndefined) of
             Inl e' \<Rightarrow> Inl e'
           | Inr (JStr m) \<Rightarrow> Inr (JStr m)
           | Inr _ \<Rightarrow>
               (if js_truthy (js_get_opt (data r) ''message'') then Inr (js_get_opt (data r) ''message'')
                else if status r \<noteq> 0 then Inr (JStr (status_message r))
                else Inr (extract_fallback cl e))))"

text \<open>
  The \<open>catch\<close> of \<open>fetchAllData\<close> and \<open>refreshColumns\<close>: a new error whose message is
  the prefix and the extracted message.
\<close>

definition rethrow :: "client \<Rightarrow> string \<Rightarrow> js_error \<Rightarrow> js_error" where
  "rethrow cl prefix e =
     (case extractErrorMessage cl e of
        Inl e' \<Rightarrow> e'
      | Inr m \<Rightarrow> (case js_ToString m of Inl e' \<Rightarrow> e' | Inr ms \<Rightarrow> Error (prefix @ ms)))"

text \<open>What both searches do with the response of \<open>makeJiraRequest\<close>, inside their \<open>try\<close>.\<close>

definition search_data :: "http_response \<Rightarrow> js_error + jsval" where
  "search_data r =
     (if string_includes (data r) ''<!DOCTYPE html>'' then
        Inl (Error ''Bearer token authentication failed. The token works for PAT management but not for search API. Please check if your Jira instance requires a different authentication method for API v3 endpoints.'')
      else (case js_get (data r) ''issues'' of
              Inl e \<Rightarrow> Inl e
            | Inr issues \<Rightarrow> Inr (data r)))"

definition default_fields :: "string option list" where
  "default_fields = [Some ''key'', Some ''summary'', Some ''status'']"

text \<open>\<open>defaultColumns.map(col => col.jiraField)\<close>: a TypeError on an entry that is \<open>null\<close>.\<close>

definition column_fields :: "column option list \<Rightarrow> js_error + string option list" where
  "column_fields cs = map_err (\<lambda>c. case c of None \<Rightarrow> Inl TypeError | Some col \<Rightarrow> Inr (jiraField col)) cs"

definition refreshColumns ::
  "client \<Rightarrow> transport \<Rightarrow> string option \<Rightarrow> string option
     \<Rightarrow> request list \<times> (js_error + jsval)" where
  "refreshColumns cl tr jql userToken =
     (case column_fields (defaultColumns cl) of
        Inl e \<Rightarrow> ([], Inl (rethrow cl ''Failed to refresh columns: '' e))
      | Inr fs \<Rightarrow>
          (case makeJiraRequest cl tr (or_str jql (cfg_jql cl))
                  (if fs = [] then default_fields else fs) (or_str userToken (pat cl)) of
             (rqs, Inl e) \<Rightarrow> (rqs, Inl (rethrow cl ''Failed to refresh columns: '' e))
           | (rqs, Inr r) \<Rightarrow>
               (case search_data r of
                  Inl e \<Rightarrow> (rqs, Inl (rethrow cl ''Failed to refresh columns: '' e))
                | Inr d \<Rightarrow> (rqs, Inr d))))"

definition fetchAllData ::
  "client \<Rightarrow> transport \<Rightarrow> string option \<Rightarrow> string option
     \<Rightarrow> request list \<times> (js_error + jsval)" where
  "fetchAllData cl tr jql userToken =
     (case makeJiraRequest cl tr (or_str jql (cfg_jql cl))
             (map Some (allPossibleFields cl)) (or_str userToken (pat cl)) of
        (rqs, Inl e) \<Rightarrow> (rqs, Inl (rethrow cl ''Failed to fetch all Jira data: '' e))
      | (rqs, Inr r) \<Rightarrow>
          (case search_data r of
             Inl e \<Rightarrow> (rqs, Inl (rethrow cl ''Failed to fetch all Jira data: '' e))
           | Inr d \<Rightarrow> (rqs, Inr d)))"

section \<open>The wiki summary fetcher\<close>

subsection \<open>Regular expressions of the fetcher\<close>

text \<open>
  A regular expression without the \<open>g\<close> flag matches at the leftmost position where it
  can: \<open>find_first\<close> tries a matcher at every position from the left, the end included.
\<close>

fun find_first :: "(string \<Rightarrow> 'a option) \<Rightarrow> string \<Rightarrow> 'a option" where
  "find_first f [] = f []"
| "find_first f (c # cs) = (case f (c # cs) of Some x \<Rightarrow> Some x | None \<Rightarrow> find_first f cs)"

text \<open>A literal under the \<open>i\<close> flag: the rest of the text after it, if the text starts with it.\<close>

fun ci_prefix :: "string \<Rightarrow> string \<Rightarrow> string option" where
  "ci_prefix [] s = Some s"
| "ci_prefix (p # ps) [] = None"
| "ci_prefix (p # ps) (c # cs) = (if lower_char p = lower_char c then ci_prefix ps cs else None)"

text \<open>A character class, \<open>[23]\<close> or \<open>[123]\<close>.\<close>

definition one_of :: "string \<Rightarrow> string \<Rightarrow> string option" where
  "one_of cls s = (case s of [] \<Rightarrow> None | c # cs \<Rightarrow> (if c \<in> set cls then Some cs else None))"

text \<open>\<open>[^>]*>\<close>: everything up to the first \<open>>\<close>, which has to be there.\<close>

definition skip_tag_rest :: "string \<Rightarrow> string option" where
  "skip_tag_rest s = (case dropWhile (\<lambda>c. c \<noteq> CHR ''>'') s of [] \<Rightarrow> None | c # r \<Rightarrow> Some r)"

text \<open>\<open>\d+\<close>: the longest run of digits, which is not empty.\<close>

definition digits1 :: "string \<Rightarrow> string option" where
  "digits1 s = (if takeWhile is_digit s = [] then None else Some (takeWhile is_digit s))"

text \<open>The lookahead \<open>(?=<h[123]|$)\<close>: the next heading of level 1 to 3 opens here, or the text ends.\<close>

definition heading_stop :: "string \<Rightarrow> bool" where
  "heading_stop s = (s = [] \<or> Option.bind (ci_prefix ''<h'' s) (one_of ''123'') \<noteq> None)"

text \<open>The lazy \<open>(.*?)\<close> before that lookahead: the text up to the first place where it holds.\<close>

fun lazy_until :: "(string \<Rightarrow> bool) \<Rightarrow> string \<Rightarrow> string" where
  "lazy_until stop [] = []"
| "lazy_until stop (c # cs) = (if stop (c # cs) then [] else c # lazy_until stop cs)"

text \<open>The lazy \<open>(.*?)</p>\<close>: the text before the first \<open></p>\<close>, which has to be there.\<close>

fun until_close :: "string \<Rightarrow> string option" where
  "until_close [] = None"
| "until_close (c # cs) =
     (if ci_prefix ''</p>'' (c # cs) \<noteq> None then Some []
      else map_option (\<lambda>g. c # g) (until_close cs))"

text \<open>\<open>/<h[23][^>]*>Summary<\/h[23]>(.*?)(?=<h[123]|$)/is\<close> at one position: group 1.\<close>

definition summary_heading_at :: "string \<Rightarrow> string option" where
  "summary_heading_at s =
     do {
       r1 \<leftarrow> ci_prefix ''<h'' s;
       r2 \<leftarrow> one_of ''23'' r1;
       r3 \<leftarrow> skip_tag_rest r2;
       r4 \<leftarrow> ci_prefix ''Summary</h'' r3;
       r5 \<leftarrow> one_of ''23'' r4;
       r6 \<leftarrow> ci_prefix ''>'' r5;
       Some (lazy_until heading_stop r6)
     }"

definition summaryRegex :: "string \<Rightarrow> string option" where
  "summaryRegex html = find_first summary_heading_at html"

text \<open>\<open>/<p[^>]*><strong[^>]*>Summary:?<\/strong>(.*?)<\/p>/is\<close> at one position: group 1.\<close>

definition summary_strong_at :: "string \<Rightarrow> string option" where
  "summary_strong_at s =
     do {
       r1 \<leftarrow> ci_prefix ''<p'' s;
       r2 \<leftarrow> skip_tag_rest r1;
       r3 \<leftarrow> ci_prefix ''<strong'' r2;
       r4 \<leftarrow> skip_tag_rest r3;
       r5 \<leftarrow> ci_prefix ''Summary'' r4;
       r6 \<leftarrow> ci_prefix ''</strong>'' (case r5 of c # r \<Rightarrow> (if c = CHR '':'' then r else r5) | [] \<Rightarrow> r5);
       until_close r6
     }"

definition summaryStrongRegex :: "string \<Rightarrow> string option" where
  "summaryStrongRegex html = find_first summary_strong_at html"

text \<open>\<open>/<p[^>]*>(.*?)<\/p>/is\<close> at one position: group 1.\<close>

definition first_para_at :: "string \<Rightarrow> string option" where
  "first_para_at s =
     do {
       r1 \<leftarrow> ci_prefix ''<p'' s;
       r2 \<leftarrow> skip_tag_rest r1;
       until_close r2
     }"

definition firstParaRegex :: "string \<Rightarrow> string option" where
  "firstParaRegex html = find_first first_para_at html"

text \<open>\<open>/pageId=(\d+)|pages\/(\d+)/\<close> at one position: group 1 or, failing that, group 2.\<close>

definition page_id_at :: "string \<Rightarrow> string option" where
  "page_id_at s =
     (case (if startsWith s ''pageId='' then digits1 (drop 7 s) else None) of
        Some d \<Rightarrow> Some d
      | None \<Rightarrow> (if startsWith s ''pages/'' then digits1 (drop 6 s) else None))"

text \<open>\<open>/\/pages\/(\d+)/\<close> at one position.\<close>

definition page_path_at :: "string \<Rightarrow> string option" where
  "page_path_at s = (if startsWith s ''/pages/'' then digits1 (drop 7 s) else None)"

subsection \<open>Cleaning markup\<close>

text \<open>\<open>s.replace(/<[^>]+>/g, ' ')\<close>: every tag, from a \<open><\<close> over at least one character to the next \<open>>\<close>, becomes a space.\<close>

function strip_tags :: "string \<Rightarrow> string" where
  "strip_tags [] = []"
| "strip_tags (c # cs) =
     (if c = CHR ''<'' \<and> takeWhile (\<lambda>d. d \<noteq> CHR ''>'') cs \<noteq> []
         \<and> dropWhile (\<lambda>d. d \<noteq> CHR ''>'') cs \<noteq> []
      then CHR '' '' # strip_tags (tl (dropWhile (\<lambda>d. d \<noteq> CHR ''>'') cs))
      else c # strip_tags cs)"
  by pat_completeness auto
termination
proof (relation "measure length")
  show "wf (measure length)" by simp
next
  fix c :: char and cs :: string
  have "length (dropWhile (\<lambda>d. d \<noteq> CHR ''>'') cs) \<le> length cs"
    by (rule length_dropWhile_le)
  then show "(tl (dropWhile (\<lambda>d. d \<noteq> CHR ''>'') cs), c # cs) \<in> measure length"
    by simp
next
  fix c :: char and cs :: string
  show "(cs, c # cs) \<in> measure length" by simp
qed

text \<open>\<open>s.replace(/pat/g, rep)\<close> for a literal pattern that is not empty.\<close>

fun replace_all :: "string \<Rightarrow> string \<Rightarrow> string \<Rightarrow> string" where
  "replace_all pt rep [] = []"
| "replace_all pt rep (c # cs) =
     (if startsWith (c # cs) pt then rep @ replace_all pt rep (drop (length pt - 1) cs)
      else c # replace_all pt rep cs)"

definition decode_entities :: "string \<Rightarrow> string" where
  "decode_entities s =
     replace_all ''&#39;'' [CHR 0x27]
       (replace_all ''&quot;'' [CHR 0x22]
         (replace_all ''&gt;'' ''>''
           (replace_all ''&lt;'' ''<''
             (replace_all ''&amp;'' ''&''
               (replace_all ''&nbsp;'' '' '' s)))))"

text \<open>\<open>s.replace(/\s+/g, ' ')\<close>.\<close>

function collapse_spaces :: "string \<Rightarrow> string" where
  "collapse_spaces [] = []"
| "collapse_spaces (c # cs) =
     (if is_space c then CHR '' '' # collapse_spaces (dropWhile is_space cs)
      else c # collapse_spaces cs)"
  by pat_completeness auto
termination
proof (relation "measure length")
  show "wf (measure length)" by simp
next
  fix c :: char and cs :: string
  have "length (dropWhile is_space cs) \<le> length cs"
    by (rule length_dropWhile_le)
  then show "(dropWhile is_space cs, c # cs) \<in> measure length"
    by simp
next
  fix c :: char and cs :: string
  show "(cs, c # cs) \<in> measure length" by simp
qed

definition cleanHtml :: "string \<Rightarrow> string" where
  "cleanHtml html =
     (if html = [] then [] else trim (collapse_spaces (decode_entities (strip_tags html))))"

subsection \<open>Extraction\<close>

text \<open>The body of the \<open>try\<close> of \<open>extractSummary\<close>, on a page body that is a string.\<close>

definition summary_text :: "string \<Rightarrow> string" where
  "summary_text html =
     (case summaryRegex html of
        Some g \<Rightarrow> cleanHtml g
      | None \<Rightarrow>
          (case summaryStrongRegex html of
             Some g \<Rightarrow> cleanHtml g
           | None \<Rightarrow>
               (case firstParaRegex html of
                  Some g \<Rightarrow> cleanHtml g
                | None \<Rightarrow> take 500 (cleanHtml html))))"

text \<open>A body that is no string has no \<open>match\<close>: the call throws, inside the \<open>try\<close>.\<close>

definition extractSummary_try :: "jsval \<Rightarrow> js_error + string" where
  "extractSummary_try v = (case v of JStr s \<Rightarrow> Inr (summary_text s) | _ \<Rightarrow> Inl TypeError)"

definition extractSummary :: "jsval \<Rightarrow> jsval" where
  "extractSummary v =
     (if \<not> js_truthy v then JNull
      else (case extractSummary_try v of Inl e \<Rightarrow> JNull | Inr s \<Rightarrow> JStr s))"

definition extractUrl :: "jsval \<Rightarrow> jsval" where
  "extractUrl v =
     (if \<not> js_truthy v then JNull
      else (case v of
              JStr s \<Rightarrow> (if startsWith s ''http'' then v else JNull)
            | _ \<Rightarrow>
                (if typeof_object v then
                   (case first_truthy (map (js_get_opt v) [''url'', ''value'', ''href'']) of
                      Some w \<Rightarrow> w
                    | None \<Rightarrow> JNull)
                 else JNull)))"

text \<open>\<open>s.match(re)\<close> on a value: a TypeError unless the value is a string.\<close>

definition match_str :: "(string \<Rightarrow> string option) \<Rightarrow> jsval \<Rightarrow> js_error + string option" where
  "match_str f v = (case v of JStr s \<Rightarrow> Inr (find_first f s) | _ \<Rightarrow> Inl TypeError)"

definition extractPageId :: "jsval \<Rightarrow> js_error + jsval" where
  "extractPageId v =
     (if \<not> js_truthy v then Inr JNull
      else (case (if typeof_object v then probe v [''url'', ''value''] else Inr v) of
              Inl e \<Rightarrow> Inl e
            | Inr urlString \<Rightarrow>
                (if \<not> js_truthy urlString then Inr JNull
                 else (case match_str page_id_at urlString of
                         Inl e \<Rightarrow> Inl e
                       | Inr (Some d) \<Rightarrow> Inr (JStr d)
                       | Inr None \<Rightarrow>
                           (case match_str page_path_at urlString of
                              Inl e \<Rightarrow> Inl e
                            | Inr (Some d) \<Rightarrow> Inr (JStr d)
                            | Inr None \<Rightarrow> Inr JNull)))))"

subsection \<open>Words of the specification about summaries\<close>

text \<open>
  \<open>mentions s p\<close>: the text \<open>s\<close> holds \<open>p\<close> somewhere, in whatever letter case (\<open>p\<close> is
  given in lower case). \<open>opens_with s p\<close>: \<open>s\<close> starts with it.
\<close>

definition mentions :: "string \<Rightarrow> string \<Rightarrow> bool" where
  "mentions s p = str_includes (toLowerCase s) p"

definition opens_with :: "string \<Rightarrow> string \<Rightarrow> bool" where
  "opens_with s p = startsWith (toLowerCase s) p"

text \<open>
  A document has no summary heading when no title \<open>Summary\<close> is closed by \<open></h2>\<close> or
  \<open></h3>\<close>, and no bold summary label when no \<open>Summary\<close> or \<open>Summary:\<close> is closed by
  \<open></strong>\<close>.
\<close>

definition no_summary_heading :: "string \<Rightarrow> bool" where
  "no_summary_heading html =
     (\<not> mentions html ''>summary</h2>'' \<and> \<not> mentions html ''>summary</h3>'')"

definition no_bold_summary :: "string \<Rightarrow> bool" where
  "no_bold_summary html =
     (\<not> mentions html ''>summary</strong>'' \<and> \<not> mentions html ''>summary:</strong>'')"

text \<open>
  A document with a summary section is some text, a heading \<open><h2>Summary</h2>\<close> or
  \<open><h3>Summary</h3>\<close>, the section, and the rest, where the text before has no summary
  heading, no tag of a heading of level 1 to 3 opens in the section, and the rest is
  empty or opens with one of level 1 to 3. The text before may hold headings of any
  level, paragraphs and bold summary labels.
\<close>

definition summary_heading :: "string \<Rightarrow> bool" where
  "summary_heading h = (h = ''<h2>Summary</h2>'' \<or> h = ''<h3>Summary</h3>'')"

definition summary_section_document :: "string \<Rightarrow> string \<Rightarrow> string \<Rightarrow> string \<Rightarrow> bool" where
  "summary_section_document pre h sect rest =
     (summary_heading h \<and> no_summary_heading pre \<and>
      \<not> mentions sect ''<h1'' \<and> \<not> mentions sect ''<h2'' \<and> \<not> mentions sect ''<h3'' \<and>
      (rest = [] \<or> opens_with rest ''<h1'' \<or> opens_with rest ''<h2'' \<or> opens_with rest ''<h3''))"

text \<open>
  A document with a bold summary paragraph is some text, the paragraph
  \<open><p><strong>Summary:</strong>\<close> body \<open></p>\<close>, and the rest, where the document has no
  summary heading, the text before has no bold summary label, and the body holds no
  \<open></p>\<close>. The text before may hold paragraphs and bold text.
\<close>

definition bold_summary_document :: "string \<Rightarrow> string \<Rightarrow> string \<Rightarrow> bool" where
  "bold_summary_document pre body rest =
     (no_summary_heading (pre @ ''<p><strong>Summary:</strong>'' @ body @ ''</p>'' @ rest) \<and>
      no_bold_summary pre \<and> \<not> mentions body ''</p>'')"

text \<open>
  A document whose first paragraph is \<open><p>\<close> body \<open></p>\<close>: it has no summary heading and
  no bold summary label, no tag that starts with \<open><p\<close> opens in the text before, and the
  body holds no \<open></p>\<close>.
\<close>

definition first_paragraph_document :: "string \<Rightarrow> string \<Rightarrow> string \<Rightarrow> bool" where
  "first_paragraph_document pre body rest =
     (no_summary_heading (pre @ ''<p>'' @ body @ ''</p>'' @ rest) \<and>
      no_bold_summary (pre @ ''<p>'' @ body @ ''</p>'' @ rest) \<and>
      \<not> mentions pre ''<p'' \<and> \<not> mentions body ''</p>'')"

text \<open>
  For the proofs: no match of \<open>f\<close> starts inside \<open>pre\<close> when \<open>t\<close> follows it
  (\<open>none_before\<close>), or none with another group than \<open>x\<close> (\<open>none_other\<close>), and \<open>P\<close>
  holds at no place inside \<open>sect\<close> when \<open>t\<close> follows it (\<open>none_stop\<close>).
\<close>

fun none_before :: "(string \<Rightarrow> 'a option) \<Rightarrow> string \<Rightarrow> string \<Rightarrow> bool" where
  "none_before f [] t = True"
| "none_before f (c # cs) t = (f (c # cs @ t) = None \<and> none_before f cs t)"

fun none_stop :: "(string \<Rightarrow> bool) \<Rightarrow> string \<Rightarrow> string \<Rightarrow> bool" where
  "none_stop P [] t = True"
| "none_stop P (c # cs) t = (\<not> P (c # cs @ t) \<and> none_stop P cs t)"

fun none_other :: "(string \<Rightarrow> 'a option) \<Rightarrow> 'a \<Rightarrow> string \<Rightarrow> string \<Rightarrow> bool" where
  "none_other f x [] t = True"
| "none_other f x (c # cs) t =
     ((\<forall>g. f (c # cs @ t) = Some g \<longrightarrow> g = x) \<and> none_other f x cs t)"

subsection \<open>Fetching\<close>

text \<open>
  The wiki client: its base URL and the token of its key file, if there is one. A page
  request names the URL and the bearer token; \<open>axios.get\<close> rejects every status outside
  200 to 299.
\<close>

record wiki_client =
  wiki_baseUrl :: string
  wiki_token :: "string option"

record page_request =
  page_url :: string
  page_token :: string

type_synonym wiki_transport = "page_request \<Rightarrow> outcome"

definition axios_get :: "wiki_transport \<Rightarrow> page_request \<Rightarrow> js_error + http_response" where
  "axios_get tr rq =
     (case tr rq of
        NoAnswer m c \<Rightarrow> Inl (AxiosError m c None)
      | Answered r \<Rightarrow>
          (if 200 \<le> status r \<and> status r < 300 then Inr r
           else Inl (AxiosError (''Request failed with status code '' @ show_int (status r)) None
                       (Some r))))"

record page_content =
  pc_success :: bool
  pc_title :: jsval
  pc_body :: jsval
  pc_version :: jsval
  pc_error :: jsval

text \<open>The body of the \<open>try\<close> of \<open>fetchPageContent\<close>.\<close>

definition fetchPageContent_try ::
  "wiki_client \<Rightarrow> wiki_transport \<Rightarrow> jsval \<Rightarrow> string option \<Rightarrow> js_error + page_content" where
  "fetchPageContent_try wc tr v userToken =
     (if \<not> js_truthy (extractUrl v) then Inl (Error ''Invalid Confluence URL format'')
      else (case extractPageId (extractUrl v) of
              Inl e \<Rightarrow> Inl e
            | Inr pid \<Rightarrow>
                (if \<not> js_truthy pid then Inl (Error ''Could not extract page ID from Confluence URL'')
                 else if \<not> str_truthy (or_str userToken (wiki_token wc)) then
                   Inl (Error ''Confluence token not available. Please provide token.'')
                 else (case js_ToString pid of
                         Inl e \<Rightarrow> Inl e
                       | Inr ps \<Rightarrow>
                           (case axios_get tr
                                   \<lparr>page_url = wiki_baseUrl wc @ ''/rest/api/content/'' @ ps @
                                                 ''?expand=body.storage,version'',
                                    page_token = the (or_str userToken (wiki_token wc))\<rparr> of
                              Inl e \<Rightarrow> Inl e
                            | Inr r \<Rightarrow>
                                (case js_get (data r) ''title'' of
                                   Inl e \<Rightarrow> Inl e
                                 | Inr title \<Rightarrow>
                                     Inr \<lparr>pc_success = True, pc_title = title,
                                          pc_body = js_or (js_get_opt (js_get_opt (js_get_opt (data r) ''body'') ''storage'') ''value'') (JStr []),
                                          pc_version = js_or (js_get_opt (js_get_opt (data r) ''version'') ''number'') (JNum 1),
                                          pc_error = JUndefined\<rparr>))))))"

definition fetchPageContent ::
  "wiki_client \<Rightarrow> wiki_transport \<Rightarrow> jsval \<Rightarrow> string option \<Rightarrow> page_content" where
  "fetchPageContent wc tr v userToken =
     (case fetchPageContent_try wc tr v userToken of
        Inl e \<Rightarrow> \<lparr>pc_success = False, pc_title = JNull, pc_body = JNull, pc_version = JUndefined,
                   pc_error = JStr (err_message e)\<rparr>
      | Inr pc \<Rightarrow> pc)"

record summary_result =
  sr_success :: bool
  sr_summary :: jsval
  sr_title :: jsval
  sr_error :: jsval

text \<open>The body of the \<open>try\<close> of \<open>getSummary\<close>; nothing in it throws, and the \<open>catch\<close> is there all the same.\<close>

definition getSummary_try ::
  "wiki_client \<Rightarrow> wiki_transport \<Rightarrow> jsval \<Rightarrow> string option \<Rightarrow> js_error + summary_result" where
  "getSummary_try wc tr v userToken =
     (if \<not> js_truthy (extractUrl v) then
        Inr \<lparr>sr_success = False, sr_summary = JNull, sr_title = JUndefined,
             sr_error = JStr ''No valid Confluence URL provided''\<rparr>
      else (let pc = fetchPageContent wc tr (extractUrl v) userToken in
            if \<not> pc_success pc then
              Inr \<lparr>sr_success = False, sr_summary = JNull, sr_title = JUndefined,
                   sr_error = js_or (pc_error pc) (JStr ''Failed to fetch page'')\<rparr>
            else
              Inr \<lparr>sr_success = True, sr_summary = extractSummary (pc_body pc),
                   sr_title = pc_title pc, sr_error = JNull\<rparr>))"

definition getSummary ::
  "wiki_client \<Rightarrow> wiki_transport \<Rightarrow> jsval \<Rightarrow> string option \<Rightarrow> summary_result" where
  "getSummary wc tr v userToken =
     (case getSummary_try wc tr v userToken of
        Inl e \<Rightarrow> \<lparr>sr_success = False, sr_summary = JNull, sr_title = JUndefined,
                   sr_error = JStr (err_message e)\<rparr>
      | Inr r \<Rightarrow> r)"

text \<open>
  \<open>getSummaries\<close>: every summary is computed, then \<open>results[url] = summaries[index]\<close>
  for each URL in turn; a URL that is no string is turned into a property name first.
\<close>

fun assign_all ::
  "(string \<times> summary_result) list \<Rightarrow> (jsval \<times> summary_result) list
     \<Rightarrow> js_error + (string \<times> summary_result) list" where
  "assign_all results [] = Inr results"
| "assign_all results ((url, r) # rest) =
     (case js_ToString url of
        Inl e \<Rightarrow> Inl e
      | Inr k \<Rightarrow> assign_all (obj_set results k r) rest)"

definition getSummaries ::
  "wiki_client \<Rightarrow> wiki_transport \<Rightarrow> jsval list \<Rightarrow> string option
     \<Rightarrow> js_error + (string \<times> summary_result) list" where
  "getSummaries wc tr urls userToken =
     assign_all [] (zip urls (map (\<lambda>url. getSummary wc tr url userToken) urls))"

section \<open>The HTTP facade\<close>

text \<open>
  A request to the facade: its headers (names in lower case) and the \<open>jql\<close> query
  parameter. A reply: status and JSON body. A handler returns the tracker requests it
  caused and its reply. Outside development mode the \<open>details\<close> of an error reply are
  \<open>undefined\<close>; in it they are the stack trace, which is a parameter here.
\<close>

record api_request =
  headers :: "string \<Rightarrow> string option"
  query_jql :: "string option"

record reply =
  reply_status :: int
  reply_body :: jsval

definition no_token_reply :: reply where
  "no_token_reply =
     \<lparr>reply_status = 401,
      reply_body = JObj [(''success'', JBool False),
        (''error'', JStr ''No authentication token provided. Please authenticate first using the Authenticate button.'')]\<rparr>"

text \<open>The \<open>catch\<close> of a route: the status of the error's response, or 500.\<close>

definition error_reply :: "(js_error \<Rightarrow> jsval) \<Rightarrow> js_error \<Rightarrow> reply" where
  "error_reply details e =
     \<lparr>reply_status = (case err_response e of
                         None \<Rightarrow> 500
                       | Some r \<Rightarrow> (if status r \<noteq> 0 then status r else 500)),
      reply_body = JObj [(''success'', JBool False), (''error'', JStr (err_message e)),
                         (''details'', details e)]\<rparr>"

definition issues_reply ::
  "date_env \<Rightarrow> (js_error \<Rightarrow> jsval) \<Rightarrow> client \<Rightarrow> string \<Rightarrow> js_error + jsval \<Rightarrow> reply" where
  "issues_reply env details cl msg res =
     (case res of
        Inl e \<Rightarrow> error_reply details e
      | Inr d \<Rightarrow>
          (case js_get d ''issues'' of
             Inl e \<Rightarrow> error_reply details e
           | Inr issues \<Rightarrow>
               (case formatIssues env cl issues of
                  Inl e \<Rightarrow> error_reply details e
                | Inr rows \<Rightarrow>
                    \<lparr>reply_status = 200,
                     reply_body = JObj [(''success'', JBool True), (''total'', js_get_opt d ''total''),
                                        (''issues'', JArr (map JObj rows)), (''message'', JStr msg)]\<rparr>)))"

text \<open>\<open>GET /api/fetch-all-data\<close>.\<close>

definition get_fetch_all_data ::
  "date_env \<Rightarrow> (js_error \<Rightarrow> jsval) \<Rightarrow> client \<Rightarrow> transport \<Rightarrow> api_request
     \<Rightarrow> request list \<times> reply" where
  "get_fetch_all_data env details cl tr rq =
     (if \<not> str_truthy (headers rq ''x-jira-token'') then ([], no_token_reply)
      else (case fetchAllData cl tr (query_jql rq) (headers rq ''x-jira-token'') of
              (rqs, res) \<Rightarrow>
                (rqs, issues_reply env details cl ''All data fetched successfully'' res)))"

text \<open>\<open>GET /api/refresh-columns\<close>.\<close>

definition get_refresh_columns ::
  "date_env \<Rightarrow> (js_error \<Rightarrow> jsval) \<Rightarrow> client \<Rightarrow> transport \<Rightarrow> api_request
     \<Rightarrow> request list \<times> reply" where
  "get_refresh_columns env details cl tr rq =
     (if \<not> str_truthy (headers rq ''x-jira-token'') then ([], no_token_reply)
      else (case refreshColumns cl tr (query_jql rq) (headers rq ''x-jira-token'') of
              (rqs, res) \<Rightarrow>
                (rqs, issues_reply env details cl ''Columns refreshed successfully'' res)))"

section \<open>Example data\<close>

definition example_env :: date_env where
  "example_env = \<lparr>toLocaleDateString = (\<lambda>v. ''1/2/2025''), toLocaleString = (\<lambda>v. ''1/2/2025, 10:00:00 AM'')\<rparr>"

definition example_issue :: jsval where
  "example_issue =
     JObj [(''key'', JStr ''NDB-1''),
           (''fields'', JObj [(''summary'', JStr ''Fix login''),
                              (''status'', JObj [(''name'', JStr ''Open'')]),
                              (''labels'', JArr [JStr ''Foo'', JStr ''bar'']),
                              (''assignee'', JNull),
                              (''a'', JObj [(''b'', JObj [])])])]"

definition example_columns :: "column option list" where
  "example_columns =
     [Some \<lparr>col_key = Some ''summary'', jiraField = Some ''summary'', col_type = Some ''text'',
             labelToCheck = None\<rparr>,
      None,
      Some \<lparr>col_key = None, jiraField = Some ''assignee'', col_type = Some ''text'',
             labelToCheck = None\<rparr>,
      Some \<lparr>col_key = Some ''status'', jiraField = Some ''status.name'', col_type = Some ''badge'',
             labelToCheck = None\<rparr>,
      Some \<lparr>col_key = Some ''orphan'', jiraField = None, col_type = None, labelToCheck = None\<rparr>,
      Some \<lparr>col_key = Some ''hasFoo'', jiraField = Some ''labels'', col_type = Some ''labelCheck'',
             labelToCheck = Some ''foo''\<rparr>]"

definition example_client :: client where
  "example_client =
     \<lparr>baseUrl = ''https://jira.example.com/'', pat = Some ''secret'',
      cfg_username = Some ''jdoe'', cfg_jql = Some ''project = NDB'',
      defaultColumns = example_columns, allPossibleFields = [''key'', ''summary'', ''status'']\<rparr>"

text \<open>A tracker that refuses every request with 401.\<close>

definition refuse_all :: transport where
  "refuse_all rq =
     Answered \<lparr>status = 401, statusText = ''Unauthorized'', content_type = Some ''application/json'',
               data = JObj [(''message'', JStr ''Unauthorized'')]\<rparr>"

text \<open>A tracker that accepts the \<open>X-Auth-Token\<close> header and nothing else.\<close>

definition example_search_result :: jsval where
  "example_search_result = JObj [(''total'', JNum 1), (''issues'', JArr [example_issue])]"

definition header_only :: transport where
  "header_only rq =
     (case req_auth rq of
        HeaderAuth n v \<Rightarrow>
          (if n = ''X-Auth-Token''
           then Answered \<lparr>status = 200, statusText = ''OK'', content_type = Some ''application/json'',
                          data = example_search_result\<rparr>
           else refuse_all rq)
      | _ \<Rightarrow> refuse_all rq)"

text \<open>A tracker that accepts the bearer token \<open>secret\<close>.\<close>

definition bearer_only :: transport where
  "bearer_only rq =
     (if req_auth rq = BearerAuth ''secret''
      then Answered \<lparr>status = 200, statusText = ''OK'', content_type = Some ''application/json'',
                     data = example_search_result\<rparr>
      else refuse_all rq)"

definition no_details :: "js_error \<Rightarrow> jsval" where
  "no_details e = JUndefined"

definition anonymous_request :: api_request where
  "anonymous_request = \<lparr>headers = (\<lambda>h. None), query_jql = Some ''project = NDB''\<rparr>"

definition token_request :: api_request where
  "token_request =
     \<lparr>headers = (\<lambda>h. if h = ''x-jira-token'' then Some ''secret'' else None), query_jql = None\<rparr>"

text \<open>A wiki that has page 123456789 and no other.\<close>

definition example_wiki :: wiki_client where
  "example_wiki = \<lparr>wiki_baseUrl = ''https://nutanix.atlassian.net/wiki'', wiki_token = Some ''wiki-token''\<rparr>"

definition example_page_body :: string where
  "example_page_body =
     ''<h1>Design</h1><p>Intro text.</p><h2>Summary</h2><p>Login is &amp; stays <b>fast</b>.</p><h2>Details</h2><p><strong>Summary:</strong> Not this one.</p>''"

definition one_page_wiki :: wiki_transport where
  "one_page_wiki rq =
     (if page_url rq = ''https://nutanix.atlassian.net/wiki/rest/api/content/123456789?expand=body.storage,version''
      then Answered \<lparr>status = 200, statusText = ''OK'', content_type = Some ''application/json'',
                     data = JObj [(''title'', JStr ''Design''),
                                  (''body'', JObj [(''storage'', JObj [(''value'', JStr example_page_body)])]),
                                  (''version'', JObj [(''number'', JNum 4)])]\<rparr>
      else Answered \<lparr>status = 404, statusText = ''Not Found'', content_type = Some ''application/json'',
                     data = JObj [(''message'', JStr ''No content found'')]\<rparr>)"

section \<open>Properties of the field resolver\<close>

lemma walk_parts_total: "\<exists>w. walk_parts v ps = Inr w"
proof (induction ps arbitrary: v)
  case Nil
  show ?case by simp
next
  case (Cons p ps)
  show ?case
  proof (cases "js_truthy v \<and> typeof_object v")
    case False
    then show ?thesis by auto
  next
    case True
    then have "\<not> is_nullish v" by (cases v) simp_all
    then obtain u where "js_get v p = Inr u" by (simp add: js_get_def)
    with True Cons.IH [of u] show ?thesis by simp
  qed
qed

lemma walk_parts_resolve:
  "walk_parts v ps =
     Inr (case resolve_parts v ps of
            Found w \<Rightarrow> w
          | Missing_last \<Rightarrow> JUndefined
          | Missing_before \<Rightarrow> JNull)"
proof (induction ps arbitrary: v)
  case Nil
  show ?case by simp
next
  case (Cons p ps)
  show ?case
  proof (cases "traversable v")
    case False
    then show ?thesis by (auto simp add: traversable_def)
  next
    case True
    then have nn: "\<not> is_nullish v"
      by (cases v) (simp_all add: traversable_def)
    show ?thesis
    proof (cases "own_prop v p")
      case None
      with nn have "js_get v p = Inr JUndefined"
        by (simp add: js_get_def)
      with True None show ?thesis
        by (cases ps) (simp_all add: traversable_def)
    next
      case (Some u)
      with nn have "js_get v p = Inr u"
        by (simp add: js_get_def)
      with True Some Cons.IH [of u] show ?thesis
        by (simp add: traversable_def)
    qed
  qed
qed

lemma resolve_parts_not_traversable:
  "\<not> traversable v \<Longrightarrow> ps \<noteq> [] \<Longrightarrow> resolve_parts v ps = Missing_before"
  by (cases ps) simp_all

lemma js_get_truthy: "js_truthy v \<Longrightarrow> js_get v k = Inr (js_get_opt v k)"
  by (cases v) (simp_all add: js_get_def js_get_opt_def)

lemma js_get_opt_falsy: "\<not> js_truthy v \<Longrightarrow> js_get_opt v k = JUndefined"
  by (cases v) (simp_all add: js_get_opt_def)

lemma split_acc_not_Nil: "split_acc sep acc s \<noteq> []"
  by (induction sep acc s rule: split_acc.induct) auto

lemma js_split_not_Nil: "js_split sep s \<noteq> []"
  by (simp add: js_split_def split_acc_not_Nil)

text \<open>
  C3 (as the code has it). For every issue and every path the resolver returns and
  never throws. The empty path gives \<open>null\<close>, and the path \<open>key\<close> reads the issue's own
  key (\<open>null\<close> when the issue is falsy). For every other path whose segments name own
  properties (none is the name of an inherited member such as \<open>constructor\<close>,
  \<open>toString\<close> or \<open>map\<close>, which the code reads as a function): when every segment is
  present the result is the value found; when the walk stops before the last segment,
  because a segment is missing or the value reached is not traversable, the result is
  \<open>null\<close>; when only the last segment is missing from a traversable value, the result
  is \<open>undefined\<close>.
\<close>

theorem getFieldValue_absent:
  "(\<exists>v. getFieldValue issue path = Inr v) \<and>
   getFieldValue issue [] = Inr JNull \<and>
   getFieldValue issue ''key'' = Inr (if js_truthy issue then js_get_opt issue ''key'' else JNull) \<and>
   (path \<noteq> [] \<longrightarrow> path \<noteq> ''key'' \<longrightarrow> own_path path \<longrightarrow>
      getFieldValue issue path =
        Inr (case resolve_spec issue path of
               Found v \<Rightarrow> v
             | Missing_last \<Rightarrow> JUndefined
             | Missing_before \<Rightarrow> JNull))"
proof -
  have 1: "\<exists>v. getFieldValue issue path = Inr v"
    using walk_parts_total [of "js_get_opt issue ''fields''" "js_split ''.'' path"]
    by (auto simp add: getFieldValue_def js_get_truthy)
  have 2: "getFieldValue issue [] = Inr JNull"
    by (simp add: getFieldValue_def)
  have 3: "getFieldValue issue ''key'' = Inr (if js_truthy issue then js_get_opt issue ''key'' else JNull)"
    by (simp add: getFieldValue_def js_get_truthy)
  have 4: "getFieldValue issue path =
        Inr (case resolve_spec issue path of
               Found v \<Rightarrow> v
             | Missing_last \<Rightarrow> JUndefined
             | Missing_before \<Rightarrow> JNull)"
    if ne: "path \<noteq> []" and k: "path \<noteq> ''key''"
  proof (cases "js_truthy issue \<and> js_truthy (js_get_opt issue ''fields'')")
    case True
    with ne k show ?thesis
      by (simp add: getFieldValue_def js_get_truthy resolve_spec_def walk_parts_resolve)
  next
    case False
    then have f: "\<not> js_truthy (js_get_opt issue ''fields'')"
      by (auto simp add: js_get_opt_falsy)
    then have nt: "\<not> traversable (js_get_opt issue ''fields'')"
      by (simp add: traversable_def)
    from resolve_parts_not_traversable [OF nt js_split_not_Nil [of "''.''" path]]
    have "resolve_spec issue path = Missing_before"
      by (simp add: resolve_spec_def)
    with False ne k f show ?thesis
      by (auto simp add: getFieldValue_def js_get_truthy)
  qed
  from 1 2 3 4 show ?thesis by blast
qed

theorem getFieldValue_absent_witness:
  "own_path ''a.x.c'' \<and> resolve_spec example_issue ''a.x.c'' = Missing_before \<and>
   getFieldValue example_issue ''a.x.c'' = Inr JNull \<and>
   own_path ''a.b.c'' \<and> resolve_spec example_issue ''a.b.c'' = Missing_last \<and>
   getFieldValue example_issue ''a.b.c'' = Inr JUndefined \<and>
   own_path ''summary.length'' \<and> resolve_spec example_issue ''summary.length'' = Missing_before \<and>
   getFieldValue example_issue ''summary.length'' = Inr JNull \<and>
   own_path ''status.name'' \<and> resolve_spec example_issue ''status.name'' = Found (JStr ''Open'') \<and>
   getFieldValue example_issue ''status.name'' = Inr (JStr ''Open'') \<and>
   getFieldValue example_issue ''key'' = Inr (JStr ''NDB-1'') \<and>
   \<not> own_path ''status.constructor''"
proof -
  have a: "own_path ''a.x.c'' \<and> resolve_spec example_issue ''a.x.c'' = Missing_before"
    by code_simp
  have b: "own_path ''a.b.c'' \<and> resolve_spec example_issue ''a.b.c'' = Missing_last"
    by code_simp
  have c: "own_path ''summary.length'' \<and> resolve_spec example_issue ''summary.length'' = Missing_before"
    by code_simp
  have d: "own_path ''status.name'' \<and> resolve_spec example_issue ''status.name'' = Found (JStr ''Open'')"
    by code_simp
  have e: "\<not> own_path ''status.constructor'' \<and> js_truthy example_issue \<and>
      js_get_opt example_issue ''key'' = JStr ''NDB-1''"
    by code_simp
  from getFieldValue_absent [of example_issue "''a.x.c''"] a
  have 1: "getFieldValue example_issue ''a.x.c'' = Inr JNull" by simp
  from getFieldValue_absent [of example_issue "''a.b.c''"] b
  have 2: "getFieldValue example_issue ''a.b.c'' = Inr JUndefined" by simp
  from getFieldValue_absent [of example_issue "''summary.length''"] c
  have 3: "getFieldValue example_issue ''summary.length'' = Inr JNull" by simp
  from getFieldValue_absent [of example_issue "''status.name''"] d e
  have 4: "getFieldValue example_issue ''status.name'' = Inr (JStr ''Open'') \<and>
      getFieldValue example_issue ''key'' = Inr (JStr ''NDB-1'')" by simp
  from a b c d e 1 2 3 4 show ?thesis by simp
qed

text \<open>
  C3 as stated fails: with \<open>a\<close> and \<open>a.b\<close> present and only \<open>a.b.c\<close> missing, the
  resolver returns \<open>undefined\<close>, which is not \<open>null\<close>.
\<close>

theorem getFieldValue_last_segment_counterexample:
  "own_path ''a.b.c'' \<and> resolve_spec example_issue ''a.b'' = Found (JObj []) \<and>
   resolve_spec example_issue ''a.b.c'' = Missing_last \<and>
   getFieldValue example_issue ''a.b.c'' = Inr JUndefined \<and>
   getFieldValue example_issue ''a.b.c'' \<noteq> Inr JNull"
  by code_simp

section \<open>Properties of the formatters\<close>

lemma js_get_not_nullish: "\<not> is_nullish v \<Longrightarrow> js_get v k = Inr (js_get_opt v k)"
  by (simp add: js_get_def js_get_opt_def)

lemma call_toString_not_nullish: "\<not> is_nullish v \<Longrightarrow> call_toString v = js_ToString v"
  by (simp add: call_toString_def)

lemma probe_first_truthy:
  "\<not> is_nullish v \<Longrightarrow>
   probe v ks = (case first_truthy (map (js_get_opt v) ks) of
                   Some w \<Rightarrow> Inr w
                 | None \<Rightarrow> str_result (js_ToString v))"
  by (induction ks) (simp_all add: js_get_not_nullish call_toString_not_nullish str_result_def)

lemma startsWith_iff: "startsWith s p \<longleftrightarrow> (\<exists>b. s = p @ b)"
  by (induction s p rule: startsWith.induct) auto

lemma str_includes_iff: "str_includes s p \<longleftrightarrow> (\<exists>a b. s = a @ p @ b)"
proof (induction s)
  case Nil
  then show ?case by auto
next
  case (Cons c cs)
  show ?case
  proof
    assume "str_includes (c # cs) p"
    then consider "startsWith (c # cs) p" | "str_includes cs p" by auto
    then show "\<exists>a b. c # cs = a @ p @ b"
    proof cases
      case 1
      then obtain b where "c # cs = p @ b" by (auto simp add: startsWith_iff)
      then have "c # cs = [] @ p @ b" by simp
      then show ?thesis by blast
    next
      case 2
      with Cons.IH obtain a b where "cs = a @ p @ b" by auto
      then have "c # cs = (c # a) @ p @ b" by simp
      then show ?thesis by blast
    qed
  next
    assume "\<exists>a b. c # cs = a @ p @ b"
    then obtain a b where e: "c # cs = a @ p @ b" by auto
    show "str_includes (c # cs) p"
    proof (cases a)
      case Nil
      with e have "startsWith (c # cs) p" by (auto simp add: startsWith_iff)
      then show ?thesis by simp
    next
      case (Cons d ds)
      with e have "cs = ds @ p @ b" by simp
      with Cons.IH have "str_includes cs p" by blast
      then show ?thesis by simp
    qed
  qed
qed

text \<open>
  C7 (as the code has it). For the column type \<open>confluence\<close>: a string is passed through
  unchanged (one that starts with \<open>http\<close> by the first test, any other by its string
  form, which is itself); for an object or an array the fields \<open>url\<close>, \<open>value\<close>, \<open>href\<close>
  are probed in that order and the first truthy one is the result, and when none is,
  the result is the value's string form; a number or boolean gives its string form.
  (String forms are stated for safe integers, which the engine prints digit by digit.)
  For the column type \<open>link\<close> the value is returned as it is, whatever it is. An absent
  value gives the empty string for both types.
\<close>

theorem formatFieldValue_link_confluence:
  "(\<not> is_nullish v \<longrightarrow> formatFieldValue env v (Some ''link'') = Inr v) \<and>
   (is_nullish v \<longrightarrow> formatFieldValue env v (Some ''link'') = Inr (JStr [])
      \<and> formatFieldValue env v (Some ''confluence'') = Inr (JStr [])) \<and>
   formatFieldValue env (JStr s) (Some ''confluence'') = Inr (JStr s) \<and>
   (typeof_object v \<longrightarrow> \<not> is_nullish v \<longrightarrow>
      (\<forall>w. first_truthy (map (js_get_opt v) [''url'', ''value'', ''href'']) = Some w \<longrightarrow>
           formatFieldValue env v (Some ''confluence'') = Inr w) \<and>
      (first_truthy (map (js_get_opt v) [''url'', ''value'', ''href'']) = None \<longrightarrow>
       safe_numbers v \<longrightarrow>
           formatFieldValue env v (Some ''confluence'') = str_result (js_ToString v))) \<and>
   (safe_numbers (JNum n) \<longrightarrow>
      formatFieldValue env (JNum n) (Some ''confluence'') = Inr (JStr (show_int n))) \<and>
   formatFieldValue env (JBool b) (Some ''confluence'') =
     Inr (JStr (if b then ''true'' else ''false''))"
proof -
  have 1: "formatFieldValue env (JStr s) (Some ''confluence'') = Inr (JStr s)"
    by (simp add: formatFieldValue_def call_toString_def str_result_def)
  have 2: "formatFieldValue env v (Some ''confluence'') =
        (case first_truthy (map (js_get_opt v) [''url'', ''value'', ''href'']) of
           Some w \<Rightarrow> Inr w
         | None \<Rightarrow> str_result (js_ToString v))"
    if "typeof_object v" and n: "\<not> is_nullish v"
    using that probe_first_truthy [OF n, of "[''url'', ''value'', ''href'']"]
    by (cases v) (simp_all add: formatFieldValue_def)
  have 3: "(\<not> is_nullish v \<longrightarrow> formatFieldValue env v (Some ''link'') = Inr v) \<and>
   (is_nullish v \<longrightarrow> formatFieldValue env v (Some ''link'') = Inr (JStr [])
      \<and> formatFieldValue env v (Some ''confluence'') = Inr (JStr []))"
    by (simp add: formatFieldValue_def)
  have 4: "formatFieldValue env (JNum n) (Some ''confluence'') = Inr (JStr (show_int n))"
    by (simp add: formatFieldValue_def call_toString_def str_result_def)
  have 5: "formatFieldValue env (JBool b) (Some ''confluence'') =
     Inr (JStr (if b then ''true'' else ''false''))"
    by (simp add: formatFieldValue_def call_toString_def str_result_def)
  from 1 2 3 4 5 show ?thesis by simp
qed

theorem formatFieldValue_link_confluence_witness:
  "formatFieldValue example_env (JObj [(''url'', JStr []), (''value'', JStr ''https://wiki.example.com/p'')])
     (Some ''confluence'') = Inr (JStr ''https://wiki.example.com/p'') \<and>
   formatFieldValue example_env (JObj [(''id'', JNum 7)]) (Some ''confluence'') = Inr (JStr ''[object Object]'') \<and>
   formatFieldValue example_env (JArr [JNum 7, JStr ''x'']) (Some ''confluence'') = Inr (JStr ''7,x'') \<and>
   formatFieldValue example_env (JNum 42) (Some ''confluence'') = Inr (JStr ''42'') \<and>
   formatFieldValue example_env (JObj [(''id'', JNum 7)]) (Some ''link'') = Inr (JObj [(''id'', JNum 7)]) \<and>
   formatFieldValue example_env JNull (Some ''link'') = Inr (JStr [])"
proof -
  let ?v = "JObj [(''url'', JStr []), (''value'', JStr ''https://wiki.example.com/p'')]"
  let ?w = "JObj [(''id'', JNum 7)]"
  let ?a = "JArr [JNum 7, JStr ''x'']"
  have 1: "typeof_object ?v \<and> \<not> is_nullish ?v \<and> typeof_object ?w \<and> \<not> is_nullish ?w \<and> is_nullish JNull
      \<and> typeof_object ?a \<and> \<not> is_nullish ?a \<and> safe_numbers ?w \<and> safe_numbers ?a \<and> safe_numbers (JNum 42)"
    by simp
  have 2: "first_truthy (map (js_get_opt ?v) [''url'', ''value'', ''href'']) = Some (JStr ''https://wiki.example.com/p'')"
    by code_simp
  have 3: "first_truthy (map (js_get_opt ?w) [''url'', ''value'', ''href'']) = None \<and>
      first_truthy (map (js_get_opt ?a) [''url'', ''value'', ''href'']) = None"
    by code_simp
  have 4: "str_result (js_ToString ?w) = Inr (JStr ''[object Object]'') \<and>
      str_result (js_ToString ?a) = Inr (JStr ''7,x'') \<and> show_int 42 = ''42''"
    by code_simp
  show ?thesis
    using formatFieldValue_link_confluence [of ?v example_env "[]" 42 True]
      formatFieldValue_link_confluence [of ?w example_env "[]" 42 True]
      formatFieldValue_link_confluence [of ?a example_env "[]" 42 True]
      formatFieldValue_link_confluence [of JNull example_env "[]" 42 True] 1 2 3 4
    by simp
qed

text \<open>
  C7 as stated fails for the type \<open>link\<close>: an object with a \<open>url\<close> field is returned
  whole, not probed, and a number is returned as a number, not in its string form.
\<close>

theorem formatFieldValue_link_counterexample:
  "formatFieldValue example_env (JObj [(''url'', JStr ''https://wiki.example.com/p'')]) (Some ''link'')
     = Inr (JObj [(''url'', JStr ''https://wiki.example.com/p'')]) \<and>
   formatFieldValue example_env (JObj [(''url'', JStr ''https://wiki.example.com/p'')]) (Some ''link'')
     \<noteq> Inr (JStr ''https://wiki.example.com/p'') \<and>
   formatFieldValue example_env (JNum 42) (Some ''link'') = Inr (JNum 42) \<and>
   formatFieldValue example_env (JNum 42) (Some ''link'') \<noteq> Inr (JStr ''42'')"
  by code_simp

lemma label_matches_entry:
  "is_label_entry e \<Longrightarrow> label_matches l e = Inr (toLowerCase (label_name e) = toLowerCase l)"
proof (cases e)
  case (JStr s)
  then show ?thesis by (simp add: label_matches_def)
next
  case (JObj ps)
  assume "is_label_entry e"
  with JObj obtain n where n: "map_of ps ''name'' = Some (JStr n)" and ne: "n \<noteq> []"
    by (auto split: option.splits jsval.splits)
  then have "probe e [''name''] = Inr (JStr n)"
    using JObj by (simp add: js_get_def)
  with JObj n show ?thesis
    by (simp add: label_matches_def)
qed simp_all

lemma some_err_all_Inr:
  "\<forall>x\<in>set xs. f x = Inr (g x) \<Longrightarrow> some_err f xs = Inr (\<exists>x\<in>set xs. g x)"
  by (induction xs) auto

text \<open>
  C8 (as the code has it). \<open>checkLabel\<close> compares without regard to case, as
  \<open>toLowerCase\<close> maps it (the letters \<open>A\<close> to \<open>Z\<close> and the accented capitals of
  Latin-1). For an array
  whose entries are strings or label objects it answers \<open>Yes\<close> exactly when some entry
  equals \<open>labelToCheck\<close> case-insensitively; for a single string that is not empty it
  answers \<open>Yes\<close> exactly when the string contains \<open>labelToCheck\<close> case-insensitively;
  for the empty string, \<open>null\<close> and \<open>undefined\<close> it answers \<open>No\<close>.
\<close>

theorem checkLabel_case_insensitive:
  "(list_all is_label_entry xs \<longrightarrow>
      checkLabel (JArr xs) l =
        Inr (JStr (if \<exists>e\<in>set xs. toLowerCase (label_name e) = toLowerCase l
                   then ''Yes'' else ''No''))) \<and>
   (s \<noteq> [] \<longrightarrow>
      checkLabel (JStr s) l =
        Inr (JStr (if \<exists>a b. toLowerCase s = a @ toLowerCase l @ b then ''Yes'' else ''No''))) \<and>
   checkLabel (JStr []) l = Inr (JStr ''No'') \<and>
   checkLabel JNull l = Inr (JStr ''No'') \<and>
   checkLabel JUndefined l = Inr (JStr ''No'')"
proof (intro conjI impI)
  assume "list_all is_label_entry xs"
  then have "\<forall>e\<in>set xs. label_matches l e = Inr (toLowerCase (label_name e) = toLowerCase l)"
    by (simp add: list_all_iff label_matches_entry)
  from some_err_all_Inr [OF this]
  show "checkLabel (JArr xs) l =
        Inr (JStr (if \<exists>e\<in>set xs. toLowerCase (label_name e) = toLowerCase l
                   then ''Yes'' else ''No''))"
    by (simp add: checkLabel_def)
next
  assume "s \<noteq> []"
  then show "checkLabel (JStr s) l =
        Inr (JStr (if \<exists>a b. toLowerCase s = a @ toLowerCase l @ b then ''Yes'' else ''No''))"
    by (simp add: checkLabel_def str_includes_iff)
qed (simp_all add: checkLabel_def)

theorem checkLabel_case_insensitive_witness:
  "list_all is_label_entry [JStr ''Foo''] \<and>
   checkLabel (JArr [JStr ''Foo'']) ''foo'' = Inr (JStr ''Yes'') \<and>
   list_all is_label_entry [JObj [(''name'', JStr ''BAR'')], JStr ''x''] \<and>
   checkLabel (JArr [JObj [(''name'', JStr ''BAR'')], JStr ''x'']) ''bar'' = Inr (JStr ''Yes'') \<and>
   checkLabel (JArr [JObj [(''name'', JStr ''BAR'')], JStr ''x'']) ''ba'' = Inr (JStr ''No'') \<and>
   list_all is_label_entry [JStr [CHR 0xC9, CHR ''t'', CHR 0xC9]] \<and>
   checkLabel (JArr [JStr [CHR 0xC9, CHR ''t'', CHR 0xC9]]) [CHR 0xE9, CHR ''T'', CHR 0xE9] = Inr (JStr ''Yes'') \<and>
   checkLabel (JStr ''Needs-Foo-Review'') ''FOO'' = Inr (JStr ''Yes'')"
proof -
  have 1: "toLowerCase ''Foo'' = ''foo'' \<and> toLowerCase ''foo'' = ''foo'' \<and> toLowerCase ''BAR'' = ''bar''
      \<and> toLowerCase ''bar'' = ''bar'' \<and> toLowerCase ''x'' = ''x'' \<and> toLowerCase ''ba'' = ''ba''
      \<and> toLowerCase ''FOO'' = ''foo'' \<and> toLowerCase ''Needs-Foo-Review'' = ''needs-foo-review''
      \<and> toLowerCase [CHR 0xC9, CHR ''t'', CHR 0xC9] = [CHR 0xE9, CHR ''t'', CHR 0xE9]
      \<and> toLowerCase [CHR 0xE9, CHR ''T'', CHR 0xE9] = [CHR 0xE9, CHR ''t'', CHR 0xE9]"
    by code_simp
  have 2: "''needs-foo-review'' = ''needs-'' @ ''foo'' @ ''-review''"
    by simp
  have 3: "\<exists>a b. ''needs-foo-review'' = a @ ''foo'' @ b"
    using 2 by blast
  show ?thesis
    using checkLabel_case_insensitive [of "[JStr ''Foo'']" "''foo''" "''x''"]
      checkLabel_case_insensitive [of "[JObj [(''name'', JStr ''BAR'')], JStr ''x'']" "''bar''" "''x''"]
      checkLabel_case_insensitive [of "[JObj [(''name'', JStr ''BAR'')], JStr ''x'']" "''ba''" "''x''"]
      checkLabel_case_insensitive [of "[JStr [CHR 0xC9, CHR ''t'', CHR 0xC9]]" "[CHR 0xE9, CHR ''T'', CHR 0xE9]" "''x''"]
      checkLabel_case_insensitive [of "[]" "''FOO''" "''Needs-Foo-Review''"] 1 3
    by simp
qed

text \<open>
  C8 as stated fails in two places. The function is not total: an array entry that is
  \<open>null\<close>, or an object whose \<open>name\<close> is a number, makes it throw. And the empty string
  is answered \<open>No\<close> even when \<open>labelToCheck\<close> is empty and so contained in it.
\<close>

theorem checkLabel_not_total_counterexample:
  "checkLabel (JArr [JNull]) ''foo'' = Inl TypeError \<and>
   checkLabel (JArr [JObj [(''name'', JNum 5)]]) ''foo'' = Inl TypeError \<and>
   checkLabel (JStr []) [] = Inr (JStr ''No'') \<and>
   toLowerCase [] = [] @ toLowerCase [] @ []"
  by code_simp

section \<open>Properties of the projection\<close>

lemma fst_update_prop: "map fst (update_prop r k v) = map fst r"
  by (induction r k v rule: update_prop.induct) auto

lemma set_update_prop: "fst ` set (update_prop r k v) = fst ` set r"
  using fst_update_prop [of r k v] by (metis set_map)

lemma set_insert_index: "fst ` set (insert_index r k i v) = insert k (fst ` set r)"
  by (induction r k i v rule: insert_index.induct) (auto split: option.splits)

lemma set_obj_set:
  "fst ` set (obj_set r k v) =
     (if k = ''__proto__'' then fst ` set r else insert k (fst ` set r))"
proof (cases "k \<in> fst ` set r")
  case True
  then have "insert k (fst ` set r) = fst ` set r" by (rule insert_absorb)
  with True show ?thesis
    by (simp add: obj_set_def set_update_prop)
next
  case False
  then show ?thesis
    by (cases "parse_index k") (simp_all add: obj_set_def set_insert_index)
qed

lemma fst_obj_set_fresh:
  "k \<notin> set (map fst r) \<Longrightarrow> parse_index k = None \<Longrightarrow> k \<noteq> ''__proto__'' \<Longrightarrow>
   map fst (obj_set r k v) = map fst r @ [k]"
  by (simp add: obj_set_def)

lemma format_column_cases:
  "format_column env issue r c = Inr r' \<Longrightarrow>
   (\<not> valid_column c \<and> r' = r) \<or> (valid_column c \<and> (\<exists>cell. r' = obj_set r (column_key c) cell))"
  by (auto simp add: format_column_def valid_column_def column_key_def
      split: option.splits if_splits sum.splits)

lemma format_columns_key_set:
  "format_columns env issue r cs = Inr r' \<Longrightarrow>
   fst ` set r' = fst ` set r \<union> (set (output_keys cs) - {''__proto__''})"
proof (induction cs arbitrary: r)
  case Nil
  then show ?case by (simp add: output_keys_def)
next
  case (Cons c cs)
  from Cons.prems obtain r1 where 1: "format_column env issue r c = Inr r1"
    and 2: "format_columns env issue r1 cs = Inr r'"
    by (auto split: sum.splits)
  have ih: "fst ` set r' = fst ` set r1 \<union> (set (output_keys cs) - {''__proto__''})"
    by (rule Cons.IH [OF 2])
  show ?case
  proof (cases "valid_column c")
    case False
    with format_column_cases [OF 1] have "r1 = r" by simp
    moreover from False have "output_keys (c # cs) = output_keys cs"
      by (simp add: output_keys_def)
    ultimately show ?thesis using ih by simp
  next
    case True
    with format_column_cases [OF 1] obtain cell where "r1 = obj_set r (column_key c) cell"
      by auto
    then have s1: "fst ` set r1 =
        (if column_key c = ''__proto__'' then fst ` set r else insert (column_key c) (fst ` set r))"
      by (simp only: set_obj_set)
    from True have ok: "set (output_keys (c # cs)) = insert (column_key c) (set (output_keys cs))"
      by (simp add: output_keys_def)
    show ?thesis
      unfolding ih s1 ok by (cases "column_key c = ''__proto__''") auto
  qed
qed

lemma format_columns_key_order:
  "format_columns env issue r cs = Inr r' \<Longrightarrow>
   distinct (map fst r @ output_keys cs) \<Longrightarrow>
   \<forall>k\<in>set (output_keys cs). parse_index k = None \<and> k \<noteq> ''__proto__'' \<Longrightarrow>
   map fst r' = map fst r @ output_keys cs"
proof (induction cs arbitrary: r)
  case Nil
  then show ?case by (simp add: output_keys_def)
next
  case (Cons c cs)
  from Cons.prems(1) obtain r1 where 1: "format_column env issue r c = Inr r1"
    and 2: "format_columns env issue r1 cs = Inr r'"
    by (auto split: sum.splits)
  show ?case
  proof (cases "valid_column c")
    case False
    with format_column_cases [OF 1] have "r1 = r" by simp
    with False Cons.IH [OF 2] Cons.prems(2,3) show ?thesis
      by (simp add: output_keys_def)
  next
    case True
    with format_column_cases [OF 1] obtain cell where r1: "r1 = obj_set r (column_key c) cell"
      by auto
    from True have ok: "output_keys (c # cs) = column_key c # output_keys cs"
      by (simp add: output_keys_def)
    with Cons.prems(2,3) have fresh: "column_key c \<notin> set (map fst r)"
      and pi: "parse_index (column_key c) = None" and np: "column_key c \<noteq> ''__proto__''"
      by auto
    from fst_obj_set_fresh [OF fresh pi np] r1
    have f1: "map fst r1 = map fst r @ [column_key c]" by simp
    with Cons.prems(2) ok have d: "distinct (map fst r1 @ output_keys cs)" by simp
    from Cons.prems(3) ok have "\<forall>k\<in>set (output_keys cs). parse_index k = None \<and> k \<noteq> ''__proto__''"
      by simp
    from Cons.IH [OF 2 d this] f1 ok show ?thesis by simp
  qed
qed

lemma map_err_returns:
  "\<forall>x\<in>set xs. \<exists>y. f x = Inr y \<Longrightarrow> \<exists>ys. map_err f xs = Inr ys"
  by (induction xs) auto

lemma format_issue_keys:
  assumes "format_issue env cl issue = Inr r"
  shows "set (map fst r) = {''url'', ''key''} \<union> (set (output_keys (defaultColumns cl)) - {''__proto__''})"
    and "ordinary_keys (output_keys (defaultColumns cl)) \<Longrightarrow>
         map fst r = ''url'' # ''key'' # output_keys (defaultColumns cl)"
proof -
  from assms obtain k ks where k: "js_get issue ''key'' = Inr k" and ks: "js_ToString k = Inr ks"
    by (auto simp add: format_issue_def split: sum.splits)
  define r0 where "r0 = [(''url'', JStr (cleanBaseUrl (baseUrl cl) @ ''/browse/'' @ ks)),
                         (''key'', if js_truthy k then k else JStr [])]"
  have r0: "map fst r0 = [''url'', ''key'']"
    by (simp add: r0_def)
  from assms k ks have f: "format_columns env issue r0 (defaultColumns cl) = Inr r"
    by (simp add: format_issue_def r0_def)
  from r0 have "fst ` set r0 = {''url'', ''key''}"
    by (metis list.simps(15) set_map empty_set)
  with format_columns_key_set [OF f]
  show "set (map fst r) = {''url'', ''key''} \<union> (set (output_keys (defaultColumns cl)) - {''__proto__''})"
    by simp
  assume o: "ordinary_keys (output_keys (defaultColumns cl))"
  then have d: "distinct (map fst r0 @ output_keys (defaultColumns cl))"
    using r0 by (auto simp add: ordinary_keys_def list_all_iff)
  from o have "\<forall>k\<in>set (output_keys (defaultColumns cl)). parse_index k = None \<and> k \<noteq> ''__proto__''"
    by (simp add: ordinary_keys_def list_all_iff)
  from format_columns_key_order [OF f d this] r0
  show "map fst r = ''url'' # ''key'' # output_keys (defaultColumns cl)"
    by simp
qed

lemma map_of_update_prop_gen:
  "map_of (update_prop r k v) x = (if x = k \<and> map_of r k \<noteq> None then Some v else map_of r x)"
  by (induction r k v rule: update_prop.induct) auto

lemma map_of_update_prop:
  "k \<in> fst ` set r \<Longrightarrow> map_of (update_prop r k v) x = (if x = k then Some v else map_of r x)"
  by (simp add: map_of_update_prop_gen map_of_eq_None_iff)

lemma map_of_insert_index:
  "k \<notin> fst ` set r \<Longrightarrow> map_of (insert_index r k i v) x = (if x = k then Some v else map_of r x)"
  by (induction r k i v rule: insert_index.induct) (auto split: option.splits)

lemma map_of_append_fresh:
  "k \<notin> fst ` set r \<Longrightarrow> map_of (r @ [(k, v)]) x = (if x = k then Some v else map_of r x)"
  by (induction r) auto

lemma map_of_obj_set:
  "map_of (obj_set r k v) x =
     (if k = ''__proto__'' then map_of r x else if x = k then Some v else map_of r x)"
proof (cases "k \<in> fst ` set r")
  case True
  then show ?thesis
    by (simp add: obj_set_def map_of_update_prop)
next
  case False
  then show ?thesis
    by (cases "parse_index k")
       (simp_all add: obj_set_def map_of_insert_index map_of_append_fresh del: map_of_append)
qed


lemma plain_items_iff: "plain_items xs \<longleftrightarrow> (\<forall>x\<in>set xs. \<not> is_nullish x \<and> plain x)"
  by (induction xs) auto

lemma plain_props_lookup: "plain_props ps \<Longrightarrow> map_of ps k = Some w \<Longrightarrow> plain w"
  by (induction ps) (auto split: if_splits)

lemma plain_ToString:
  shows "plain v \<Longrightarrow> \<exists>s. js_ToString v = Inr s"
    and "plain_items xs \<Longrightarrow> \<exists>ss. js_join_parts xs = Inr ss"
  by (induction v and xs rule: js_ToString_js_join_parts.induct) auto

lemma plain_js_ToString: "plain v \<Longrightarrow> \<exists>s. js_ToString v = Inr s"
  by (rule plain_ToString(1))

lemma int_of_digits_nonneg: "0 \<le> acc \<Longrightarrow> list_all is_digit cs \<Longrightarrow> 0 \<le> int_of_digits acc cs"
  by (induction acc cs rule: int_of_digits.induct) (auto simp add: is_digit_def)

lemma parse_index_nonneg: "parse_index k = Some i \<Longrightarrow> 0 \<le> i"
  using int_of_digits_nonneg [of 0 k] by (auto simp add: parse_index_def split: if_splits)

lemma parse_index_names: "parse_index ''length'' = None" "parse_index ''name'' = None"
  by code_simp+

lemma plain_join_parts: "\<forall>y\<in>set ys. plain y \<Longrightarrow> \<exists>ss. js_join_parts ys = Inr ss"
proof (induction ys)
  case Nil
  show ?case by simp
next
  case (Cons y ys)
  then obtain ss where ss: "js_join_parts ys = Inr ss" by auto
  from Cons.prems plain_js_ToString [of y] obtain s where "js_ToString y = Inr s" by auto
  with ss show ?case by simp
qed

lemma plain_js_join: "\<forall>y\<in>set ys. plain y \<Longrightarrow> \<exists>s. js_join sep ys = Inr s"
  using plain_join_parts [of ys] by (auto simp add: js_join_def)

lemma plain_js_get_opt: "plain v \<Longrightarrow> plain (js_get_opt v k)"
proof (cases v)
  case (JObj ps)
  assume "plain v"
  with JObj show ?thesis
    by (auto simp add: js_get_opt_def plain_props_lookup split: option.splits)
next
  case (JArr xs)
  assume "plain v"
  with JArr have items: "\<forall>x\<in>set xs. plain x"
    by (simp add: plain_items_iff)
  show ?thesis
  proof (cases "parse_index k")
    case None
    with JArr show ?thesis by (simp add: js_get_opt_def)
  next
    case (Some i)
    show ?thesis
    proof (cases "i < int (length xs)")
      case True
      with parse_index_nonneg [OF Some] have "nat i < length xs" by simp
      then have "xs ! nat i \<in> set xs" by simp
      with items JArr Some True show ?thesis by (simp add: js_get_opt_def)
    next
      case False
      with JArr Some show ?thesis by (simp add: js_get_opt_def)
    qed
  qed
qed (simp_all add: js_get_opt_def)

lemma plain_probe:
  "plain v \<Longrightarrow> \<not> is_nullish v \<Longrightarrow> \<exists>w. probe v ks = Inr w \<and> plain w"
proof -
  assume p: "plain v" and n: "\<not> is_nullish v"
  from plain_js_ToString [OF p] obtain s where s: "js_ToString v = Inr s" by blast
  have f: "first_truthy (map (js_get_opt v) ks) = Some w \<Longrightarrow> plain w" for w
    using p by (induction ks) (auto simp add: plain_js_get_opt split: if_splits)
  show ?thesis
    unfolding probe_first_truthy [OF n]
    using s f by (cases "first_truthy (map (js_get_opt v) ks)") (simp_all add: str_result_def)
qed

lemma map_err_plain:
  "\<forall>x\<in>set xs. \<exists>y. f x = Inr y \<and> plain y \<Longrightarrow> \<exists>ys. map_err f xs = Inr ys \<and> (\<forall>y\<in>set ys. plain y)"
proof (induction xs)
  case Nil
  show ?case by simp
next
  case (Cons x xs)
  then obtain ys where ys: "map_err f xs = Inr ys" "\<forall>y\<in>set ys. plain y" by auto
  from Cons.prems obtain y where "f x = Inr y" "plain y" by auto
  with ys show ?case by simp
qed

lemma plain_formatFieldValue: "plain v \<Longrightarrow> \<exists>c. formatFieldValue env v ty = Inr c"
proof -
  assume p: "plain v"
  show ?thesis
  proof (cases "is_nullish v")
    case True
    then show ?thesis by (simp add: formatFieldValue_def)
  next
    case n: False
    from plain_js_ToString [OF p] obtain s where s: "js_ToString v = Inr s" by blast
    with n have ct: "call_toString v = Inr s" by (simp add: call_toString_def)
    have pr: "\<exists>w. probe v ks = Inr w" for ks
      using plain_probe [OF p n, of ks] by blast
    have da: "date_argument v = Inr ()"
      using s by (simp add: date_argument_def)
    have textual: "\<exists>c. (case v of
           JArr xs \<Rightarrow>
             (if xs = [] then Inr (JStr [])
              else if typeof_object (hd xs) then
                (case map_err (\<lambda>item. probe item [''name'']) xs of
                   Inl e \<Rightarrow> Inl e
                 | Inr ys \<Rightarrow> str_result (js_join '', '' ys))
              else str_result (js_join '', '' xs))
         | _ \<Rightarrow> (if typeof_object v then probe v [''displayName'', ''name'']
                else str_result (call_toString v))) = Inr c"
    proof (cases v)
      case (JArr xs)
      with p have items: "\<forall>x\<in>set xs. \<not> is_nullish x \<and> plain x"
        by (simp add: plain_items_iff)
      then have "\<forall>x\<in>set xs. \<exists>y. probe x [''name''] = Inr y \<and> plain y"
        using plain_probe by blast
      from map_err_plain [OF this] obtain ys where ys: "map_err (\<lambda>item. probe item [''name'']) xs = Inr ys"
        and pys: "\<forall>y\<in>set ys. plain y" by blast
      from plain_js_join [OF pys] obtain j1 where j1: "js_join '', '' ys = Inr j1" by blast
      from items have "\<forall>x\<in>set xs. plain x" by simp
      from plain_js_join [OF this] obtain j2 where j2: "js_join '', '' xs = Inr j2" by blast
      from JArr ys j1 j2 show ?thesis by (simp add: str_result_def)
    next
      case (JObj ps)
      with pr [of "[''displayName'', ''name'']"] show ?thesis by simp
    qed (insert n, simp_all add: call_toString_def str_result_def)
    have conf: "\<exists>c. (case v of
           JStr s \<Rightarrow> (if startsWith s ''http'' then Inr v else str_result (call_toString v))
         | _ \<Rightarrow> (if typeof_object v then probe v [''url'', ''value'', ''href'']
                else str_result (call_toString v))) = Inr c"
      using pr [of "[''url'', ''value'', ''href'']"] ct
      by (cases v) (simp_all add: str_result_def)
    have badge: "\<exists>c. (if typeof_object v then probe v [''name'', ''displayName'']
         else str_result (call_toString v)) = Inr c"
      using pr [of "[''name'', ''displayName'']"] ct by (simp add: str_result_def)
    from n conf badge da textual show ?thesis
      unfolding formatFieldValue_def by simp
  qed
qed

lemma plain_label_matches:
  "plain x \<Longrightarrow> \<not> is_nullish x \<Longrightarrow> \<exists>b. label_matches l x = Inr b"
proof -
  assume p: "plain x" and n: "\<not> is_nullish x"
  from plain_js_ToString [OF p] obtain s where s: "js_ToString x = Inr s" by blast
  show ?thesis
  proof (cases x)
    case (JObj ps)
    with p have "name_ok (map_of ps ''name'')" by simp
    then show ?thesis
      using JObj s
      by (cases "map_of ps ''name''" rule: name_ok.cases)
         (auto simp add: label_matches_def js_get_def call_toString_def split: jsval.splits)
  next
    case (JArr xs)
    with s show ?thesis
      by (auto simp add: label_matches_def js_get_def call_toString_def parse_index_names
          split: sum.splits)
  qed (insert n, simp_all add: label_matches_def js_get_def call_toString_def)
qed

lemma some_err_returns: "\<forall>x\<in>set xs. \<exists>b. f x = Inr b \<Longrightarrow> \<exists>b. some_err f xs = Inr b"
  by (induction xs) auto

lemma plain_checkLabel: "plain v \<Longrightarrow> \<exists>c. checkLabel v l = Inr c"
proof (cases v)
  case (JArr xs)
  assume "plain v"
  with JArr have "\<forall>x\<in>set xs. \<exists>b. label_matches l x = Inr b"
    by (simp add: plain_items_iff plain_label_matches)
  from some_err_returns [OF this] JArr show ?thesis
    by (auto simp add: checkLabel_def)
qed (simp_all add: checkLabel_def)


lemma format_column_returns:
  assumes "\<not> valid_column c \<or> (case getFieldValue issue (column_field c) of Inl e \<Rightarrow> False | Inr v \<Rightarrow> plain v)"
  shows "\<exists>r'. format_column env issue r c = Inr r'"
proof (cases "valid_column c")
  case False
  then show ?thesis
    by (auto simp add: format_column_def valid_column_def split: option.splits)
next
  case True
  then obtain col f k where c: "c = Some col" and f: "jiraField col = Some f" and k: "col_key col = Some k"
    and ne: "f \<noteq> []" "k \<noteq> []"
    by (auto simp add: valid_column_def split: option.splits)
  from True assms c f obtain v where v: "getFieldValue issue f = Inr v" and p: "plain v"
    by (auto simp add: column_field_def split: sum.splits)
  from plain_formatFieldValue [OF p] obtain c1 where c1: "formatFieldValue env v (col_type col) = Inr c1"
    by blast
  from plain_checkLabel [OF p] obtain c2 where c2: "checkLabel v (the (labelToCheck col)) = Inr c2"
    by blast
  from c f k ne v c1 c2 show ?thesis
    by (simp add: format_column_def)
qed

lemma format_columns_returns:
  "list_all (\<lambda>c. \<not> valid_column c \<or>
        (case getFieldValue issue (column_field c) of Inl e \<Rightarrow> False | Inr v \<Rightarrow> plain v)) cs \<Longrightarrow>
   \<exists>r'. format_columns env issue r cs = Inr r'"
proof (induction cs arbitrary: r)
  case Nil
  show ?case by simp
next
  case (Cons c cs)
  from Cons.prems have "\<not> valid_column c \<or>
        (case getFieldValue issue (column_field c) of Inl e \<Rightarrow> False | Inr v \<Rightarrow> plain v)"
    by simp
  from format_column_returns [OF this] obtain r1 where r1: "format_column env issue r c = Inr r1"
    by blast
  from Cons.prems Cons.IH [of r1] r1 show ?case by simp
qed

lemma format_issue_returns:
  assumes "readable_issue (defaultColumns cl) issue"
  shows "\<exists>r. format_issue env cl issue = Inr r"
proof -
  from assms have n: "\<not> is_nullish issue" and p: "plain (js_get_opt issue ''key'')"
    by (simp_all add: readable_issue_def)
  from plain_js_ToString [OF p] obtain ks where ks: "js_ToString (js_get_opt issue ''key'') = Inr ks"
    by blast
  from assms format_columns_returns [of issue "defaultColumns cl" env]
  have "\<And>r0. \<exists>r. format_columns env issue r0 (defaultColumns cl) = Inr r"
    by (simp add: readable_issue_def)
  with n ks show ?thesis
    by (simp add: format_issue_def js_get_not_nullish)
qed

lemma format_columns_lookup:
  "format_columns env issue r cs = Inr r' \<Longrightarrow> k \<notin> set (output_keys cs) \<Longrightarrow>
   map_of r' k = map_of r k"
proof (induction cs arbitrary: r)
  case Nil
  then show ?case by simp
next
  case (Cons c cs)
  from Cons.prems(1) obtain r1 where 1: "format_column env issue r c = Inr r1"
    and 2: "format_columns env issue r1 cs = Inr r'"
    by (auto split: sum.splits)
  from Cons.prems(2) have nk: "k \<notin> set (output_keys cs)"
    by (auto simp add: output_keys_def)
  from Cons.IH [OF 2 nk] have ih: "map_of r' k = map_of r1 k" .
  show ?case
  proof (cases "valid_column c")
    case False
    with format_column_cases [OF 1] ih show ?thesis by simp
  next
    case True
    with format_column_cases [OF 1] obtain cell where r1: "r1 = obj_set r (column_key c) cell"
      by auto
    from True Cons.prems(2) have "k \<noteq> column_key c"
      by (auto simp add: output_keys_def)
    with r1 ih show ?thesis by (simp add: map_of_obj_set)
  qed
qed

lemma format_issue_values:
  assumes "format_issue env cl issue = Inr r"
  shows "''key'' \<notin> set (output_keys (defaultColumns cl)) \<Longrightarrow>
         map_of r ''key'' = Some (js_or (js_get_opt issue ''key'') (JStr []))"
    and "''url'' \<notin> set (output_keys (defaultColumns cl)) \<Longrightarrow>
         \<exists>s. js_ToString (js_get_opt issue ''key'') = Inr s \<and>
             map_of r ''url'' = Some (JStr (cleanBaseUrl (baseUrl cl) @ ''/browse/'' @ s))"
proof -
  from assms obtain k ks where k: "js_get issue ''key'' = Inr k" and ks: "js_ToString k = Inr ks"
    by (auto simp add: format_issue_def split: sum.splits)
  from k have ko: "k = js_get_opt issue ''key''"
    by (auto simp add: js_get_def js_get_opt_def split: if_splits)
  define r0 where "r0 = [(''url'', JStr (cleanBaseUrl (baseUrl cl) @ ''/browse/'' @ ks)),
                         (''key'', if js_truthy k then k else JStr [])]"
  from assms k ks have f: "format_columns env issue r0 (defaultColumns cl) = Inr r"
    by (simp add: format_issue_def r0_def)
  {
    assume "''key'' \<notin> set (output_keys (defaultColumns cl))"
    from format_columns_lookup [OF f this]
    show "map_of r ''key'' = Some (js_or (js_get_opt issue ''key'') (JStr []))"
      by (simp add: r0_def ko js_or_def)
  }
  {
    assume "''url'' \<notin> set (output_keys (defaultColumns cl))"
    from format_columns_lookup [OF f this]
    have "map_of r ''url'' = Some (JStr (cleanBaseUrl (baseUrl cl) @ ''/browse/'' @ ks))"
      by (simp add: r0_def)
    with ks ko
    show "\<exists>s. js_ToString (js_get_opt issue ''key'') = Inr s \<and>
             map_of r ''url'' = Some (JStr (cleanBaseUrl (baseUrl cl) @ ''/browse/'' @ s))"
      by simp
  }
qed

lemma map_err_list_all2: "map_err f xs = Inr ys \<Longrightarrow> list_all2 (\<lambda>x y. f x = Inr y) xs ys"
proof (induction xs arbitrary: ys)
  case Nil
  then show ?case by simp
next
  case (Cons x xs)
  from Cons.prems obtain y ys' where y: "f x = Inr y" and r: "map_err f xs = Inr ys'"
    and e: "ys = y # ys'"
    by (auto split: sum.splits)
  from Cons.IH [OF r] y e show ?case by simp
qed


text \<open>
  C1 (as the code has it). Whenever \<open>formatIssues\<close> returns for an array of issues, it
  returns one row per issue, in order, and for every issue and its row: the keys of the
  row are exactly \<open>url\<close>, \<open>key\<close> and the output keys of the applied columns (an output
  key \<open>__proto__\<close> names the prototype and makes no entry); a column definition that is
  \<open>null\<close> or misses its output key or its source path contributes nothing. When the
  output keys are ordinary (distinct, no array index, none of \<open>url\<close>, \<open>key\<close>,
  \<open>__proto__\<close>) the keys stand in the order \<open>url\<close>, \<open>key\<close>, then schema order. Unless
  a column overwrites it, \<open>key\<close> is the issue's key, or the empty string when that is
  falsy, and \<open>url\<close> is the base URL without its trailing slash, \<open>/browse/\<close> and the
  string form of the issue's key (stated for keys whose numbers are safe integers).
  The projection returns for every array of readable issues: each issue is there, and
  its key and the values its columns resolve to are plain data.
\<close>

theorem formatIssues_rows:
  "(formatIssues env cl (JArr issues) = Inr rows \<longrightarrow>
      list_all2 (\<lambda>issue r.
          set (map fst r) =
            {''url'', ''key''} \<union> (set (output_keys (defaultColumns cl)) - {''__proto__''}) \<and>
          (ordinary_keys (output_keys (defaultColumns cl)) \<longrightarrow>
             map fst r = ''url'' # ''key'' # output_keys (defaultColumns cl)) \<and>
          (''key'' \<notin> set (output_keys (defaultColumns cl)) \<longrightarrow>
             map_of r ''key'' = Some (js_or (js_get_opt issue ''key'') (JStr []))) \<and>
          (''url'' \<notin> set (output_keys (defaultColumns cl)) \<longrightarrow>
             safe_numbers (js_get_opt issue ''key'') \<longrightarrow>
             (\<exists>s. js_ToString (js_get_opt issue ''key'') = Inr s \<and>
                  map_of r ''url'' =
                    Some (JStr (cleanBaseUrl (baseUrl cl) @ ''/browse/'' @ s)))))
        issues rows) \<and>
   (list_all (readable_issue (defaultColumns cl)) issues \<longrightarrow>
      (\<exists>rs. formatIssues env cl (JArr issues) = Inr rs))"
proof -
  have 1: "list_all2 (\<lambda>issue r.
          set (map fst r) =
            {''url'', ''key''} \<union> (set (output_keys (defaultColumns cl)) - {''__proto__''}) \<and>
          (ordinary_keys (output_keys (defaultColumns cl)) \<longrightarrow>
             map fst r = ''url'' # ''key'' # output_keys (defaultColumns cl)) \<and>
          (''key'' \<notin> set (output_keys (defaultColumns cl)) \<longrightarrow>
             map_of r ''key'' = Some (js_or (js_get_opt issue ''key'') (JStr []))) \<and>
          (''url'' \<notin> set (output_keys (defaultColumns cl)) \<longrightarrow>
             safe_numbers (js_get_opt issue ''key'') \<longrightarrow>
             (\<exists>s. js_ToString (js_get_opt issue ''key'') = Inr s \<and>
                  map_of r ''url'' =
                    Some (JStr (cleanBaseUrl (baseUrl cl) @ ''/browse/'' @ s)))))
        issues rows"
    if a: "formatIssues env cl (JArr issues) = Inr rows"
  proof -
    from a have "map_err (format_issue env cl) issues = Inr rows"
      by (simp add: formatIssues_def)
    from map_err_list_all2 [OF this]
    have "list_all2 (\<lambda>issue r. format_issue env cl issue = Inr r) issues rows" .
    then show ?thesis
    proof (rule list_all2_mono)
      fix issue r
      assume f: "format_issue env cl issue = Inr r"
      from format_issue_keys [OF f] format_issue_values [OF f]
      show "set (map fst r) =
            {''url'', ''key''} \<union> (set (output_keys (defaultColumns cl)) - {''__proto__''}) \<and>
          (ordinary_keys (output_keys (defaultColumns cl)) \<longrightarrow>
             map fst r = ''url'' # ''key'' # output_keys (defaultColumns cl)) \<and>
          (''key'' \<notin> set (output_keys (defaultColumns cl)) \<longrightarrow>
             map_of r ''key'' = Some (js_or (js_get_opt issue ''key'') (JStr []))) \<and>
          (''url'' \<notin> set (output_keys (defaultColumns cl)) \<longrightarrow>
             safe_numbers (js_get_opt issue ''key'') \<longrightarrow>
             (\<exists>s. js_ToString (js_get_opt issue ''key'') = Inr s \<and>
                  map_of r ''url'' =
                    Some (JStr (cleanBaseUrl (baseUrl cl) @ ''/browse/'' @ s))))"
        by blast
    qed
  qed
  have 2: "\<exists>rs. formatIssues env cl (JArr issues) = Inr rs"
    if "list_all (readable_issue (defaultColumns cl)) issues"
  proof -
    from that have "\<forall>i\<in>set issues. \<exists>r. format_issue env cl i = Inr r"
      by (simp add: list_all_iff format_issue_returns)
    from map_err_returns [OF this] show ?thesis
      by (simp add: formatIssues_def)
  qed
  from 1 2 show ?thesis by blast
qed

theorem formatIssues_rows_witness:
  "formatIssues example_env example_client (JArr [example_issue]) =
     Inr [[(''url'', JStr ''https://jira.example.com/browse/NDB-1''), (''key'', JStr ''NDB-1''),
           (''summary'', JStr ''Fix login''), (''status'', JStr ''Open''),
           (''hasFoo'', JStr ''Yes'')]] \<and>
   ordinary_keys (output_keys (defaultColumns example_client)) \<and>
   ''url'' # ''key'' # output_keys (defaultColumns example_client) =
     [''url'', ''key'', ''summary'', ''status'', ''hasFoo''] \<and>
   js_or (js_get_opt example_issue ''key'') (JStr []) = JStr ''NDB-1'' \<and>
   safe_numbers (js_get_opt example_issue ''key'') \<and>
   js_ToString (js_get_opt example_issue ''key'') = Inr ''NDB-1'' \<and>
   cleanBaseUrl (baseUrl example_client) @ ''/browse/'' @ ''NDB-1'' = ''https://jira.example.com/browse/NDB-1'' \<and>
   list_all (readable_issue (defaultColumns example_client))
     [example_issue, JObj [(''fields'', JObj [(''labels'', JArr [JObj [(''name'', JStr ''foo'')]])])]] \<and>
   (\<exists>rs. formatIssues example_env example_client
      (JArr [example_issue, JObj [(''fields'', JObj [(''labels'', JArr [JObj [(''name'', JStr ''foo'')]])])]])
        = Inr rs)"
proof -
  let ?row = "[(''url'', JStr ''https://jira.example.com/browse/NDB-1''), (''key'', JStr ''NDB-1''),
           (''summary'', JStr ''Fix login''), (''status'', JStr ''Open''),
           (''hasFoo'', JStr ''Yes'')]"
  let ?other = "JObj [(''fields'', JObj [(''labels'', JArr [JObj [(''name'', JStr ''foo'')]])])]"
  have 1: "formatIssues example_env example_client (JArr [example_issue]) = Inr [?row]"
    by code_simp
  have 2: "ordinary_keys (output_keys (defaultColumns example_client))"
    by code_simp
  have 3: "list_all (readable_issue (defaultColumns example_client)) [example_issue, ?other]"
    by code_simp
  have 4: "''key'' \<notin> set (output_keys (defaultColumns example_client)) \<and>
      ''url'' \<notin> set (output_keys (defaultColumns example_client)) \<and>
      safe_numbers (js_get_opt example_issue ''key'') \<and>
      js_ToString (js_get_opt example_issue ''key'') = Inr ''NDB-1''"
    by code_simp
  from formatIssues_rows [of example_env example_client "[example_issue]" "[?row]"] 1 2 4
  have 5: "map fst ?row = ''url'' # ''key'' # output_keys (defaultColumns example_client) \<and>
      map_of ?row ''key'' = Some (js_or (js_get_opt example_issue ''key'') (JStr [])) \<and>
      map_of ?row ''url'' = Some (JStr (cleanBaseUrl (baseUrl example_client) @ ''/browse/'' @ ''NDB-1''))"
    by simp
  from formatIssues_rows [of example_env example_client "[example_issue, ?other]" "[]"] 3
  have 6: "\<exists>rs. formatIssues example_env example_client (JArr [example_issue, ?other]) = Inr rs"
    by simp
  from 5 have 7: "''url'' # ''key'' # output_keys (defaultColumns example_client) =
     [''url'', ''key'', ''summary'', ''status'', ''hasFoo''] \<and>
     js_or (js_get_opt example_issue ''key'') (JStr []) = JStr ''NDB-1'' \<and>
     cleanBaseUrl (baseUrl example_client) @ ''/browse/'' @ ''NDB-1'' = ''https://jira.example.com/browse/NDB-1''"
    by simp
  from 1 2 3 4 6 7 show ?thesis by simp
qed

text \<open>
  C1 as stated fails: the projection throws for an issue that is \<open>null\<close>, for an issue
  whose text column holds an array with a \<open>null\<close> in it, for an issue whose key is an
  object with an own \<open>toString\<close>, and for a label whose \<open>name\<close> is a number.
\<close>

theorem formatIssues_throws_counterexample:
  "formatIssues example_env example_client (JArr [JNull]) = Inl TypeError \<and>
   formatIssues example_env example_client
     (JArr [JObj [(''key'', JStr ''NDB-3''), (''fields'', JObj [(''summary'', JArr [JNull])])]])
     = Inl TypeError \<and>
   formatIssues example_env example_client
     (JArr [JObj [(''key'', JObj [(''toString'', JNum 1)]), (''fields'', JObj [])]]) = Inl TypeError \<and>
   formatIssues example_env example_client
     (JArr [JObj [(''key'', JStr ''NDB-4''), (''fields'', JObj [(''labels'', JArr [JObj [(''name'', JNum 5)]])])]])
     = Inl TypeError"
  by code_simp


text \<open>
  C10. When the \<open>issues\<close> argument is not an array (\<open>null\<close>, \<open>undefined\<close>, an object, a
  string, a number), \<open>formatIssues\<close> returns the empty array and does not throw.
\<close>

theorem formatIssues_not_array:
  "\<not> isArray issues \<Longrightarrow> formatIssues env cl issues = Inr []"
  by (cases issues) (simp_all add: formatIssues_def)

theorem formatIssues_not_array_witness:
  "\<not> isArray JNull \<and> formatIssues example_env example_client JNull = Inr [] \<and>
   \<not> isArray (JObj [(''issues'', JArr [])]) \<and>
   formatIssues example_env example_client (JObj [(''issues'', JArr [])]) = Inr []"
  using formatIssues_not_array [of JNull example_env example_client]
    formatIssues_not_array [of "JObj [(''issues'', JArr [])]" example_env example_client]
  by simp

section \<open>Properties of the tracker client\<close>

lemma axios_post_Inr: "axios_post tr rq = Inr r \<Longrightarrow> tr rq = Answered r"
  by (auto simp add: axios_post_def split: outcome.splits if_splits)

lemma check_bearer_Inr: "check_bearer_response r = Inr r' \<Longrightarrow> r' = r \<and> status r = 200"
  by (auto simp add: check_bearer_response_def split: if_splits jsval.splits sum.splits)

lemma bearer_trace:
  assumes "clean_token (or_str token (pat cl)) = Inr t"
  shows "fst (tryBearerTokenRequest cl tr jql flds token) = [bearer_request cl jql flds t]"
    and "snd (tryBearerTokenRequest cl tr jql flds token) = Inr r \<Longrightarrow>
         tr (bearer_request cl jql flds t) = Answered r \<and> status r = 200"
  using assms
  by (auto simp add: tryBearerTokenRequest_def bearer_request_def Let_def
      dest: axios_post_Inr check_bearer_Inr split: sum.splits)

lemma makeJiraRequest_with_token:
  assumes "str_truthy (or_str token (pat cl))"
  shows "fst (makeJiraRequest cl tr jql flds token) =
           [bearer_request cl jql flds (strip_newlines (trim (the (or_str token (pat cl)))))]"
    and "snd (makeJiraRequest cl tr jql flds token) = Inr r \<Longrightarrow>
         tr (bearer_request cl jql flds (strip_newlines (trim (the (or_str token (pat cl)))))) = Answered r
         \<and> status r = 200"
proof -
  let ?t = "or_str token (pat cl)"
  from assms obtain s where s: "?t = Some s"
    by (auto simp add: str_truthy_def)
  then have c: "clean_token (or_str ?t (pat cl)) = Inr (strip_newlines (trim s))"
    using assms by (simp add: clean_token_def or_str_def)
  obtain rqs res where b: "tryBearerTokenRequest cl tr jql flds ?t = (rqs, res)"
    by (cases "tryBearerTokenRequest cl tr jql flds ?t") auto
  from bearer_trace(1) [OF c, of tr jql flds] b
  have rqs: "rqs = [bearer_request cl jql flds (strip_newlines (trim s))]" by simp
  have m: "makeJiraRequest cl tr jql flds token =
      (case res of Inr r \<Rightarrow> (rqs, Inr r)
       | Inl e \<Rightarrow> (rqs, Inl (Error (''All authentication methods failed. Last error: '' @
            (if err_message e \<noteq> [] then err_message e else ''Unknown error'')))))"
    using assms b
    by (simp add: makeJiraRequest_def authMethods_def run_method_def Let_def split: sum.splits)
  from m rqs s show "fst (makeJiraRequest cl tr jql flds token) =
           [bearer_request cl jql flds (strip_newlines (trim (the (or_str token (pat cl)))))]"
    by (simp split: sum.splits)
  assume "snd (makeJiraRequest cl tr jql flds token) = Inr r"
  with m have "res = Inr r" by (simp split: sum.splits)
  with b have "snd (tryBearerTokenRequest cl tr jql flds ?t) = Inr r" by simp
  from bearer_trace(2) [OF c this] s
  show "tr (bearer_request cl jql flds (strip_newlines (trim (the (or_str token (pat cl)))))) = Answered r
         \<and> status r = 200"
    by simp
qed

lemma makeJiraRequest_bearer:
  assumes "str_truthy (or_str token (pat cl))"
  shows "makeJiraRequest cl tr jql flds token =
      (case snd (tryBearerTokenRequest cl tr jql flds (or_str token (pat cl))) of
         Inr r \<Rightarrow> ([bearer_request cl jql flds (strip_newlines (trim (the (or_str token (pat cl)))))], Inr r)
       | Inl e \<Rightarrow> ([bearer_request cl jql flds (strip_newlines (trim (the (or_str token (pat cl)))))],
            Inl (Error (''All authentication methods failed. Last error: '' @
              (if err_message e \<noteq> [] then err_message e else ''Unknown error'')))))"
proof -
  let ?t = "or_str token (pat cl)"
  from assms obtain s where s: "?t = Some s"
    by (auto simp add: str_truthy_def)
  then have c: "clean_token (or_str ?t (pat cl)) = Inr (strip_newlines (trim s))"
    using assms by (simp add: clean_token_def or_str_def)
  obtain rqs res where b: "tryBearerTokenRequest cl tr jql flds ?t = (rqs, res)"
    by (cases "tryBearerTokenRequest cl tr jql flds ?t") auto
  from bearer_trace(1) [OF c, of tr jql flds] b
  have rqs: "rqs = [bearer_request cl jql flds (strip_newlines (trim s))]" by simp
  from assms b rqs s show ?thesis
    by (simp add: makeJiraRequest_def authMethods_def run_method_def Let_def split: sum.splits)
qed


text \<open>
  C2 (as the code has it). In \<open>makeJiraRequest\<close> the token to use is the caller's token
  or, failing that, the configured one. When either is there, the bearer strategy alone
  is attempted: one request, whatever its outcome, and no fallback. A client that its
  constructor accepted has a configured token, so for every such client, with or
  without a caller's token, exactly one request is sent: the call returns what the
  bearer strategy returns, and when that throws, the call throws
  \<open>All authentication methods failed. Last error: ...\<close>. A call that returns has had
  its request answered with status 200.
\<close>

theorem makeJiraRequest_strategies:
  "(str_truthy token \<longrightarrow>
      fst (makeJiraRequest cl tr jql flds token) =
        [bearer_request cl jql flds (strip_newlines (trim (the token)))]) \<and>
   (\<not> str_truthy token \<longrightarrow> str_truthy (pat cl) \<longrightarrow>
      fst (makeJiraRequest cl tr jql flds token) =
        [bearer_request cl jql flds (strip_newlines (trim (the (pat cl))))]) \<and>
   (validateConfiguration cl \<longrightarrow>
      length (fst (makeJiraRequest cl tr jql flds token)) = 1 \<and>
      (\<forall>r. snd (tryBearerTokenRequest cl tr jql flds (or_str token (pat cl))) = Inr r \<longrightarrow>
           snd (makeJiraRequest cl tr jql flds token) = Inr r) \<and>
      (\<forall>e. snd (tryBearerTokenRequest cl tr jql flds (or_str token (pat cl))) = Inl e \<longrightarrow>
           (\<exists>m. snd (makeJiraRequest cl tr jql flds token) =
                  Inl (Error (''All authentication methods failed. Last error: '' @ m))))) \<and>
   (\<forall>r. str_truthy (or_str token (pat cl)) \<longrightarrow>
      snd (makeJiraRequest cl tr jql flds token) = Inr r \<longrightarrow>
      tr (hd (fst (makeJiraRequest cl tr jql flds token))) = Answered r \<and> status r = 200)"
proof -
  have 1: "fst (makeJiraRequest cl tr jql flds token) =
        [bearer_request cl jql flds (strip_newlines (trim (the token)))]" if t: "str_truthy token"
  proof -
    from t have "str_truthy (or_str token (pat cl))" and "or_str token (pat cl) = token"
      by (simp_all add: or_str_def)
    with makeJiraRequest_bearer [of token cl tr jql flds] show ?thesis
      by (simp split: sum.splits)
  qed
  have 2: "fst (makeJiraRequest cl tr jql flds token) =
        [bearer_request cl jql flds (strip_newlines (trim (the (pat cl))))]"
    if "\<not> str_truthy token" and "str_truthy (pat cl)"
  proof -
    from that have "str_truthy (or_str token (pat cl))" and "or_str token (pat cl) = pat cl"
      by (simp_all add: or_str_def)
    with makeJiraRequest_bearer [of token cl tr jql flds] show ?thesis
      by (simp split: sum.splits)
  qed
  have 3: "length (fst (makeJiraRequest cl tr jql flds token)) = 1 \<and>
      (\<forall>r. snd (tryBearerTokenRequest cl tr jql flds (or_str token (pat cl))) = Inr r \<longrightarrow>
           snd (makeJiraRequest cl tr jql flds token) = Inr r) \<and>
      (\<forall>e. snd (tryBearerTokenRequest cl tr jql flds (or_str token (pat cl))) = Inl e \<longrightarrow>
           (\<exists>m. snd (makeJiraRequest cl tr jql flds token) =
                  Inl (Error (''All authentication methods failed. Last error: '' @ m))))"
    if "validateConfiguration cl"
  proof -
    from that have "str_truthy (or_str token (pat cl))"
      by (simp add: validateConfiguration_def or_str_def)
    from makeJiraRequest_bearer [OF this, of tr jql flds] show ?thesis
      by (simp split: sum.splits)
  qed
  have 4: "tr (hd (fst (makeJiraRequest cl tr jql flds token))) = Answered r \<and> status r = 200"
    if t: "str_truthy (or_str token (pat cl))"
      and s: "snd (makeJiraRequest cl tr jql flds token) = Inr r" for r
    using makeJiraRequest_with_token(1) [OF t, of tr jql flds] makeJiraRequest_with_token(2) [OF t s] by simp
  from 1 2 3 4 show ?thesis by blast
qed

theorem makeJiraRequest_strategies_witness:
  "str_truthy (Some ''user-token'') \<and>
   fst (makeJiraRequest example_client refuse_all (Some ''project = NDB'') [Some ''summary'']
          (Some ''user-token'')) =
     [bearer_request example_client (Some ''project = NDB'') [Some ''summary''] ''user-token''] \<and>
   \<not> str_truthy None \<and> str_truthy (pat example_client) \<and>
   fst (makeJiraRequest example_client refuse_all (Some ''project = NDB'') [Some ''summary''] None) =
     [bearer_request example_client (Some ''project = NDB'') [Some ''summary''] ''secret''] \<and>
   validateConfiguration example_client \<and>
   length (fst (makeJiraRequest example_client header_only (Some ''project = NDB'') [Some ''summary''] None)) = 1 \<and>
   (\<exists>m. snd (makeJiraRequest example_client header_only (Some ''project = NDB'') [Some ''summary''] None) =
          Inl (Error (''All authentication methods failed. Last error: '' @ m))) \<and>
   snd (makeJiraRequest example_client bearer_only (Some ''project = NDB'') [Some ''summary''] None) =
     Inr \<lparr>status = 200, statusText = ''OK'', content_type = Some ''application/json'',
          data = example_search_result\<rparr>"
proof -
  let ?ok = "\<lparr>status = 200, statusText = ''OK'', content_type = Some ''application/json'',
          data = example_search_result\<rparr>"
  have 1: "str_truthy (Some ''user-token'') \<and> \<not> str_truthy None \<and> str_truthy (pat example_client)
      \<and> validateConfiguration example_client"
    by code_simp
  have 2: "strip_newlines (trim (the (Some ''user-token''))) = ''user-token'' \<and>
      strip_newlines (trim (the (pat example_client))) = ''secret''"
    by code_simp
  have 3: "snd (tryBearerTokenRequest example_client header_only (Some ''project = NDB'') [Some ''summary'']
             (or_str None (pat example_client))) =
           Inl (Error ''Authentication failed. Please check your Bearer token (PAT) is valid and has not expired.'')"
    by code_simp
  have 4: "snd (tryBearerTokenRequest example_client bearer_only (Some ''project = NDB'') [Some ''summary'']
             (or_str None (pat example_client))) = Inr ?ok"
    by code_simp
  from makeJiraRequest_strategies [of "Some ''user-token''" example_client refuse_all
      "Some ''project = NDB''" "[Some ''summary'']"] 1 2
  have 5: "fst (makeJiraRequest example_client refuse_all (Some ''project = NDB'') [Some ''summary'']
          (Some ''user-token'')) =
     [bearer_request example_client (Some ''project = NDB'') [Some ''summary''] ''user-token'']"
    by simp
  from makeJiraRequest_strategies [of None example_client refuse_all
      "Some ''project = NDB''" "[Some ''summary'']"] 1 2
  have 6: "fst (makeJiraRequest example_client refuse_all (Some ''project = NDB'') [Some ''summary''] None) =
     [bearer_request example_client (Some ''project = NDB'') [Some ''summary''] ''secret'']"
    by simp
  from makeJiraRequest_strategies [of None example_client header_only
      "Some ''project = NDB''" "[Some ''summary'']"] 1 3
  have 7: "length (fst (makeJiraRequest example_client header_only (Some ''project = NDB'') [Some ''summary''] None)) = 1 \<and>
   (\<exists>m. snd (makeJiraRequest example_client header_only (Some ''project = NDB'') [Some ''summary''] None) =
          Inl (Error (''All authentication methods failed. Last error: '' @ m)))"
    by simp
  from makeJiraRequest_strategies [of None example_client bearer_only
      "Some ''project = NDB''" "[Some ''summary'']"] 1 4
  have 8: "snd (makeJiraRequest example_client bearer_only (Some ''project = NDB'') [Some ''summary''] None) = Inr ?ok"
    by simp
  from 1 5 6 7 8 show ?thesis by simp
qed

text \<open>
  C2 as stated fails: with no caller-supplied token the client does not go on to the
  token-header and basic-authentication strategies. The configured token is used as the
  bearer token, and when the tracker refuses it the run ends, although the token-header
  strategy would have been accepted.
\<close>

theorem makeJiraRequest_no_fallback_counterexample:
  "validateConfiguration example_client \<and>
   makeJiraRequest example_client header_only (Some ''project = NDB'') [Some ''summary''] None =
     ([bearer_request example_client (Some ''project = NDB'') [Some ''summary''] ''secret''],
      Inl (Error ''All authentication methods failed. Last error: Authentication failed. Please check your Bearer token (PAT) is valid and has not expired.'')) \<and>
   snd (tryPATTokenRequest example_client header_only (Some ''project = NDB'') [Some ''summary'']) =
     Inr \<lparr>status = 200, statusText = ''OK'', content_type = Some ''application/json'',
          data = example_search_result\<rparr>"
  by code_simp

section \<open>Properties of the HTTP facade\<close>

text \<open>
  C9. A request to \<open>/api/refresh-columns\<close> or to \<open>/api/fetch-all-data\<close> that has no
  \<open>x-jira-token\<close> header is answered with status 401 and the body
  \<open>{success: false, error: "No authentication token provided. ..."}\<close>, and no request
  is sent to the tracker.
\<close>

theorem no_token_401:
  assumes "headers rq ''x-jira-token'' = None"
  shows "get_refresh_columns env details cl tr rq = ([], no_token_reply) \<and>
         get_fetch_all_data env details cl tr rq = ([], no_token_reply) \<and>
         reply_status no_token_reply = 401 \<and>
         js_get_opt (reply_body no_token_reply) ''success'' = JBool False \<and>
         (\<exists>rest. js_get_opt (reply_body no_token_reply) ''error'' =
                  JStr (''No authentication token provided'' @ rest))"
proof -
  from assms have "\<not> str_truthy (headers rq ''x-jira-token'')"
    by (simp add: str_truthy_def)
  then have "get_refresh_columns env details cl tr rq = ([], no_token_reply)"
    and "get_fetch_all_data env details cl tr rq = ([], no_token_reply)"
    by (simp_all add: get_refresh_columns_def get_fetch_all_data_def)
  moreover have "reply_status no_token_reply = 401"
    and "js_get_opt (reply_body no_token_reply) ''success'' = JBool False"
    by (simp_all add: no_token_reply_def js_get_opt_def)
  moreover have "js_get_opt (reply_body no_token_reply) ''error'' =
      JStr (''No authentication token provided'' @
            ''. Please authenticate first using the Authenticate button.'')"
    by (simp add: no_token_reply_def js_get_opt_def)
  then have "\<exists>rest. js_get_opt (reply_body no_token_reply) ''error'' =
                  JStr (''No authentication token provided'' @ rest)"
    by blast
  ultimately show ?thesis by simp
qed

theorem no_token_401_witness:
  "headers anonymous_request ''x-jira-token'' = None \<and>
   get_refresh_columns example_env no_details example_client bearer_only anonymous_request =
     ([], no_token_reply) \<and>
   get_fetch_all_data example_env no_details example_client bearer_only anonymous_request =
     ([], no_token_reply) \<and>
   fst (get_fetch_all_data example_env no_details example_client bearer_only token_request) =
     [bearer_request example_client (Some ''project = NDB'')
        [Some ''key'', Some ''summary'', Some ''status''] ''secret''] \<and>
   reply_status (snd (get_fetch_all_data example_env no_details example_client bearer_only
     token_request)) = 200"
proof -
  have 1: "headers anonymous_request ''x-jira-token'' = None"
    by (simp add: anonymous_request_def)
  have 2: "fst (get_fetch_all_data example_env no_details example_client bearer_only token_request) =
     [bearer_request example_client (Some ''project = NDB'')
        [Some ''key'', Some ''summary'', Some ''status''] ''secret'']"
    by code_simp
  have 3: "reply_status (snd (get_fetch_all_data example_env no_details example_client bearer_only
     token_request)) = 200"
    by code_simp
  from no_token_401 [OF 1, of example_env no_details example_client bearer_only] 1 2 3
  show ?thesis by simp
qed

section \<open>Properties of the wiki summary fetcher\<close>





lemma distinct_insert_index:
  "distinct (map fst r) \<Longrightarrow> k \<notin> fst ` set r \<Longrightarrow> distinct (map fst (insert_index r k i v))"
proof (induction r k i v rule: insert_index.induct)
  case (1 k i v)
  then show ?case by simp
next
  case (2 k' v' r k i v)
  then have ne: "k' \<noteq> k" and nk: "k \<notin> fst ` set r" and d: "distinct (map fst r)"
    and nk': "k' \<notin> fst ` set r" by auto
  show ?case
  proof (cases "parse_index k'")
    case None
    with 2(2,3) show ?thesis by auto
  next
    case (Some j)
    show ?thesis
    proof (cases "j < i")
      case True
      from 2(1) [OF Some True d nk] have "distinct (map fst (insert_index r k i v))" .
      moreover have "k' \<notin> fst ` set (insert_index r k i v)"
        using nk' ne by (simp add: set_insert_index)
      ultimately show ?thesis using Some True by simp
    next
      case False
      with Some 2(2,3) show ?thesis by auto
    qed
  qed
qed

lemma distinct_obj_set:
  "distinct (map fst r) \<Longrightarrow> distinct (map fst (obj_set r k v))"
proof (cases "k \<in> fst ` set r")
  case True
  assume "distinct (map fst r)"
  with True show ?thesis
    by (simp add: obj_set_def fst_update_prop)
next
  case False
  assume "distinct (map fst r)"
  with False show ?thesis
    by (cases "parse_index k") (simp_all add: obj_set_def distinct_insert_index)
qed
lemma assign_all_strings:
  "\<exists>m. assign_all acc (zip (map JStr us) (map g us)) = Inr m \<and>
       (\<forall>x. map_of m x = (if x \<in> set us \<and> x \<noteq> ''__proto__'' then Some (g x) else map_of acc x)) \<and>
       fst ` set m = fst ` set acc \<union> (set us - {''__proto__''}) \<and>
       (distinct (map fst acc) \<longrightarrow> distinct (map fst m))"
proof (induction us arbitrary: acc)
  case Nil
  show ?case by simp
next
  case (Cons u us)
  let ?acc = "obj_set acc u (g u)"
  from Cons.IH [of ?acc] obtain m where m: "assign_all ?acc (zip (map JStr us) (map g us)) = Inr m"
    and l: "\<forall>x. map_of m x = (if x \<in> set us \<and> x \<noteq> ''__proto__'' then Some (g x) else map_of ?acc x)"
    and k: "fst ` set m = fst ` set ?acc \<union> (set us - {''__proto__''})"
    and d: "distinct (map fst ?acc) \<longrightarrow> distinct (map fst m)"
    by blast
  have 1: "assign_all acc (zip (map JStr (u # us)) (map g (u # us))) = Inr m"
    using m by simp
  have 2: "\<forall>x. map_of m x = (if x \<in> set (u # us) \<and> x \<noteq> ''__proto__'' then Some (g x) else map_of acc x)"
    using l by (auto simp add: map_of_obj_set)
  have 3: "fst ` set m = fst ` set acc \<union> (set (u # us) - {''__proto__''})"
    unfolding k set_obj_set by (cases "u = ''__proto__''") auto
  have 4: "distinct (map fst acc) \<longrightarrow> distinct (map fst m)"
    using d distinct_obj_set [of acc u "g u"] by blast
  from 1 2 3 4 show ?case by blast
qed

text \<open>
  C6. For every list of URL strings (none of them the name \<open>__proto__\<close>, which is no
  URL), \<open>getSummaries\<close> returns a mapping whose keys are exactly the input URLs, each
  mapped to the result \<open>getSummary\<close> gives for that URL, be it a success or a failure;
  so a failing URL leaves every other entry as it is and is itself the entry marked
  \<open>success: false\<close>. For N distinct URLs the mapping has N entries.
\<close>

theorem getSummaries_all_keys:
  assumes "''__proto__'' \<notin> set us"
  shows "\<exists>m. getSummaries wc tr (map JStr us) tok = Inr m \<and>
             fst ` set m = set us \<and>
             (\<forall>u\<in>set us. map_of m u = Some (getSummary wc tr (JStr u) tok)) \<and>
             (distinct us \<longrightarrow> length m = length us)"
proof -
  let ?g = "\<lambda>u. getSummary wc tr (JStr u) tok"
  have z: "zip (map JStr us) (map (\<lambda>url. getSummary wc tr url tok) (map JStr us)) =
           zip (map JStr us) (map ?g us)"
    by (simp add: comp_def)
  from assign_all_strings [of "[] :: (string \<times> summary_result) list" us ?g] obtain m
    where m: "assign_all [] (zip (map JStr us) (map ?g us)) = Inr m"
    and l: "\<forall>x. map_of m x = (if x \<in> set us \<and> x \<noteq> ''__proto__'' then Some (?g x) else None)"
    and k: "fst ` set m = set us - {''__proto__''}"
    and d: "distinct (map fst m)"
    by auto
  have 1: "getSummaries wc tr (map JStr us) tok = Inr m"
    using m z by (simp add: getSummaries_def)
  have 2: "fst ` set m = set us"
    using k assms by auto
  have 3: "\<forall>u\<in>set us. map_of m u = Some (?g u)"
    using l assms by auto
  have 4: "length m = length us" if "distinct us"
  proof -
    from d have "length m = card (set (map fst m))"
      by (metis distinct_card length_map)
    also have "\<dots> = card (set us)" using 2 by simp
    also have "\<dots> = length us" using that by (rule distinct_card)
    finally show ?thesis .
  qed
  from 1 2 3 4 show ?thesis by blast
qed
theorem getSummaries_all_keys_witness:
  "''__proto__'' \<notin> set [''https://nutanix.atlassian.net/wiki/spaces/NDB/pages/123456789/Design'',
      ''https://nutanix.atlassian.net/wiki/pages/viewpage.action?pageId=42'',
      ''https://nutanix.atlassian.net/wiki/spaces/NDB/pages/123456789/Design#x''] \<and>
   getSummaries example_wiki one_page_wiki
     (map JStr [''https://nutanix.atlassian.net/wiki/spaces/NDB/pages/123456789/Design'',
      ''https://nutanix.atlassian.net/wiki/pages/viewpage.action?pageId=42'',
      ''https://nutanix.atlassian.net/wiki/spaces/NDB/pages/123456789/Design#x'']) None =
   Inr [(''https://nutanix.atlassian.net/wiki/spaces/NDB/pages/123456789/Design'',
         \<lparr>sr_success = True, sr_summary = JStr ''Login is & stays fast .'', sr_title = JStr ''Design'', sr_error = JNull\<rparr>),
        (''https://nutanix.atlassian.net/wiki/pages/viewpage.action?pageId=42'',
         \<lparr>sr_success = False, sr_summary = JNull, sr_title = JUndefined, sr_error = JStr ''Request failed with status code 404''\<rparr>),
        (''https://nutanix.atlassian.net/wiki/spaces/NDB/pages/123456789/Design#x'',
         \<lparr>sr_success = True, sr_summary = JStr ''Login is & stays fast .'', sr_title = JStr ''Design'', sr_error = JNull\<rparr>)] \<and>
   sr_success (getSummary example_wiki one_page_wiki
     (JStr ''https://nutanix.atlassian.net/wiki/pages/viewpage.action?pageId=42'') None) = False"
proof -
  let ?us = "[''https://nutanix.atlassian.net/wiki/spaces/NDB/pages/123456789/Design'',
      ''https://nutanix.atlassian.net/wiki/pages/viewpage.action?pageId=42'',
      ''https://nutanix.atlassian.net/wiki/spaces/NDB/pages/123456789/Design#x'']"
  let ?m = "[(''https://nutanix.atlassian.net/wiki/spaces/NDB/pages/123456789/Design'',
         \<lparr>sr_success = True, sr_summary = JStr ''Login is & stays fast .'', sr_title = JStr ''Design'', sr_error = JNull\<rparr>),
        (''https://nutanix.atlassian.net/wiki/pages/viewpage.action?pageId=42'',
         \<lparr>sr_success = False, sr_summary = JNull, sr_title = JUndefined, sr_error = JStr ''Request failed with status code 404''\<rparr>),
        (''https://nutanix.atlassian.net/wiki/spaces/NDB/pages/123456789/Design#x'',
         \<lparr>sr_success = True, sr_summary = JStr ''Login is & stays fast .'', sr_title = JStr ''Design'', sr_error = JNull\<rparr>)]"
  have 1: "''__proto__'' \<notin> set ?us"
    by simp
  have 2: "getSummaries example_wiki one_page_wiki (map JStr ?us) None = Inr ?m"
    by code_simp
  from getSummaries_all_keys [OF 1, of example_wiki one_page_wiki None] 2
  have "map_of ?m ''https://nutanix.atlassian.net/wiki/pages/viewpage.action?pageId=42'' =
     Some (getSummary example_wiki one_page_wiki
       (JStr ''https://nutanix.atlassian.net/wiki/pages/viewpage.action?pageId=42'') None)"
    by simp
  then have "getSummary example_wiki one_page_wiki
     (JStr ''https://nutanix.atlassian.net/wiki/pages/viewpage.action?pageId=42'') None =
     \<lparr>sr_success = False, sr_summary = JNull, sr_title = JUndefined,
      sr_error = JStr ''Request failed with status code 404''\<rparr>"
    by simp
  then have 3: "sr_success (getSummary example_wiki one_page_wiki
     (JStr ''https://nutanix.atlassian.net/wiki/pages/viewpage.action?pageId=42'') None) = False"
    by simp
  from 1 2 3 show ?thesis by simp
qed
lemma find_first_skip:
  "none_before f pre t \<Longrightarrow> find_first f (pre @ t) = find_first f t"
  by (induction pre) simp_all

lemma find_first_here: "f s = Some x \<Longrightarrow> find_first f s = Some x"
  by (cases s) simp_all

lemma lazy_until_section:
  "none_stop P sect t \<Longrightarrow> t = [] \<or> P t \<Longrightarrow> lazy_until P (sect @ t) = sect"
proof (induction sect)
  case Nil
  then show ?case by (cases t) auto
next
  case (Cons c cs)
  then show ?case by simp
qed

lemma lower_char_lits:
  "lower_char (CHR ''<'') = CHR ''<''" "lower_char (CHR ''h'') = CHR ''h''"
  "lower_char (CHR ''2'') = CHR ''2''" "lower_char (CHR ''3'') = CHR ''3''"
  "lower_char (CHR ''>'') = CHR ''>''" "lower_char (CHR ''S'') = CHR ''s''"
  "lower_char (CHR ''u'') = CHR ''u''" "lower_char (CHR ''m'') = CHR ''m''"
  "lower_char (CHR ''a'') = CHR ''a''" "lower_char (CHR ''r'') = CHR ''r''"
  "lower_char (CHR ''y'') = CHR ''y''" "lower_char (CHR ''/'') = CHR ''/''"
  by code_simp+

lemma summary_heading_at_literal:
  "summary_heading h \<Longrightarrow> summary_heading_at (h @ x) = Some (lazy_until heading_stop x)"
  by (auto simp add: summary_heading_def summary_heading_at_def one_of_def skip_tag_rest_def
      lower_char_lits)

lemma toLowerCase_append: "toLowerCase (a @ b) = toLowerCase a @ toLowerCase b"
  by (simp add: toLowerCase_def)

lemma mentions_iff: "mentions s p \<longleftrightarrow> (\<exists>a b. toLowerCase s = a @ p @ b)"
  by (simp add: mentions_def str_includes_iff)

lemma mentions_append: "mentions s p \<Longrightarrow> mentions (a @ s @ b) p"
proof -
  assume "mentions s p"
  then obtain x y where "toLowerCase s = x @ p @ y"
    by (auto simp add: mentions_iff)
  then have "toLowerCase (a @ s @ b) = (toLowerCase a @ x) @ p @ (y @ toLowerCase b)"
    by (simp add: toLowerCase_append)
  then show ?thesis
    unfolding mentions_iff by blast
qed

lemma mentions_Cons: "mentions s p \<Longrightarrow> mentions (c # s) p"
  using mentions_append [of s p "[c]" "[]"] by simp

lemma ci_prefix_split:
  "ci_prefix p s = Some r \<Longrightarrow> \<exists>a. s = a @ r \<and> toLowerCase a = toLowerCase p"
proof (induction p s rule: ci_prefix.induct)
  case (1 s)
  then show ?case by (simp add: toLowerCase_def)
next
  case (2 p ps)
  then show ?case by simp
next
  case (3 p ps c cs)
  from 3(2) have m: "lower_char p = lower_char c" and r: "ci_prefix ps cs = Some r"
    by (simp_all split: if_splits)
  from 3(1) [OF m r] obtain a where "cs = a @ r" and "toLowerCase a = toLowerCase ps" by blast
  with m have "c # cs = (c # a) @ r \<and> toLowerCase (c # a) = toLowerCase (p # ps)"
    by (simp add: toLowerCase_def)
  then show ?case by blast
qed

lemma ci_prefix_mentions: "ci_prefix p s = Some r \<Longrightarrow> mentions s (toLowerCase p)"
proof -
  assume "ci_prefix p s = Some r"
  from ci_prefix_split [OF this] obtain a where "s = a @ r" and "toLowerCase a = toLowerCase p"
    by blast
  then have "toLowerCase s = [] @ toLowerCase p @ toLowerCase r"
    by (simp add: toLowerCase_append)
  then show ?thesis
    unfolding mentions_iff by blast
qed

lemma ci_prefix_opens:
  "opens_with s (toLowerCase p) \<Longrightarrow> \<exists>r. ci_prefix p s = Some r"
proof (induction p s rule: ci_prefix.induct)
  case (1 s)
  show ?case by simp
next
  case (2 p ps)
  then show ?case by (simp add: opens_with_def toLowerCase_def)
next
  case (3 p ps c cs)
  from 3(2) have m: "lower_char p = lower_char c" and o: "opens_with cs (toLowerCase ps)"
    by (auto simp add: opens_with_def toLowerCase_def)
  from 3(1) [OF m o] m show ?case by simp
qed

text \<open>
  A literal that matches where a text \<open>s\<close> is followed by a text \<open>t\<close> lies inside
  \<open>s\<close>, when no character of the literal after its first can stand at the start of
  \<open>t\<close>.
\<close>

lemma ci_prefix_inside:
  "ci_prefix p (s @ t) = Some r \<Longrightarrow> s \<noteq> [] \<Longrightarrow>
   t = [] \<or> (\<forall>c\<in>set (tl p). lower_char c \<noteq> lower_char (hd t)) \<Longrightarrow>
   \<exists>r'. ci_prefix p s = Some r' \<and> r = r' @ t"
proof (induction p arbitrary: s)
  case Nil
  then show ?case by simp
next
  case (Cons q qs)
  from Cons.prems(2) obtain c cs where s: "s = c # cs" by (cases s) auto
  with Cons.prems(1) have m: "lower_char q = lower_char c" and r: "ci_prefix qs (cs @ t) = Some r"
    by (simp_all split: if_splits)
  show ?case
  proof (cases cs)
    case Nil
    show ?thesis
    proof (cases qs)
      case qn: Nil
      with Nil r s m show ?thesis by simp
    next
      case (Cons q2 qs')
      with Nil r have t: "t \<noteq> []" and "lower_char q2 = lower_char (hd t)"
        by (cases t; simp split: if_splits)+
      with Cons Cons.prems(3) show ?thesis by auto
    qed
  next
    case (Cons d ds)
    then have ne: "cs \<noteq> []" by simp
    from Cons.prems(3) have "t = [] \<or> (\<forall>c\<in>set (tl qs). lower_char c \<noteq> lower_char (hd t))"
      by (cases qs) auto
    from Cons.IH [OF r ne this] obtain r' where "ci_prefix qs cs = Some r'" and "r = r' @ t"
      by blast
    with s m show ?thesis by simp
  qed
qed

lemma ci_prefix_inside_mentions:
  "ci_prefix p (s @ t) = Some r \<Longrightarrow> s \<noteq> [] \<Longrightarrow>
   t = [] \<or> (\<forall>c\<in>set (tl p). lower_char c \<noteq> lower_char (hd t)) \<Longrightarrow>
   mentions s (toLowerCase p)"
  using ci_prefix_inside ci_prefix_mentions by blast
lemma lower_lits:
  "toLowerCase ''<h1'' = ''<h1''" "toLowerCase ''<h2'' = ''<h2''" "toLowerCase ''<h3'' = ''<h3''"
  "toLowerCase ''<p'' = ''<p''" "toLowerCase ''<strong'' = ''<strong''"
  "toLowerCase ''</p>'' = ''</p>''" "toLowerCase ''Summary'' = ''summary''"
  "toLowerCase ''Summary</h'' = ''summary</h''" "toLowerCase ''>'' = ''>''"
  by code_simp+

lemma lower_strong: "toLowerCase ''</strong>'' = ''</strong>''"
  by code_simp

lemma lower_char_more:
  "lower_char (CHR ''1'') = CHR ''1''" "lower_char (CHR ''p'') = CHR ''p''"
  "lower_char (CHR ''s'') = CHR ''s''" "lower_char (CHR ''t'') = CHR ''t''"
  "lower_char (CHR ''o'') = CHR ''o''" "lower_char (CHR ''n'') = CHR ''n''"
  "lower_char (CHR ''g'') = CHR ''g''" "lower_char (CHR '':'') = CHR '':''"
  by code_simp+

lemma lower_char_low: "lower_char d = c \<Longrightarrow> (of_char c :: int) < 97 \<Longrightarrow> d = c"
  by (auto simp add: lower_char_def split: if_splits)

lemma one_of_split: "one_of cls s = Some r \<Longrightarrow> \<exists>c. s = c # r \<and> c \<in> set cls"
  by (cases s) (auto simp add: one_of_def split: if_splits)

lemma skip_tag_rest_split: "skip_tag_rest s = Some r \<Longrightarrow> \<exists>u. s = u @ CHR ''>'' # r"
proof -
  assume a: "skip_tag_rest s = Some r"
  then obtain c where d: "dropWhile (\<lambda>c. c \<noteq> CHR ''>'') s = c # r"
    by (auto simp add: skip_tag_rest_def split: list.splits)
  then have "c = CHR ''>''"
    using hd_dropWhile [of "\<lambda>c. c \<noteq> CHR ''>''" s] by auto
  with d have "s = takeWhile (\<lambda>c. c \<noteq> CHR ''>'') s @ CHR ''>'' # r"
    using takeWhile_dropWhile_id [of "\<lambda>c. c \<noteq> CHR ''>''" s] by simp
  then show ?thesis by blast
qed

lemma ci_prefix_compose: "ci_prefix (p @ q) s = Option.bind (ci_prefix p s) (ci_prefix q)"
  by (induction p s rule: ci_prefix.induct) simp_all

lemma heading_open_literal:
  "ci_prefix ''<h'' x = Some r1 \<Longrightarrow> one_of cls r1 = Some r2 \<Longrightarrow>
   \<exists>c\<in>set cls. ci_prefix (''<h'' @ [c]) x = Some r2"
proof -
  assume 1: "ci_prefix ''<h'' x = Some r1" and 2: "one_of cls r1 = Some r2"
  from one_of_split [OF 2] obtain c where c: "r1 = c # r2" "c \<in> set cls"
    by auto
  have "ci_prefix (''<h'' @ [c]) x = Some r2"
    unfolding ci_prefix_compose using 1 c by simp
  with c(2) show ?thesis by blast
qed

lemma heading_stop_opens:
  "heading_stop x \<Longrightarrow>
   x = [] \<or> (\<exists>r. ci_prefix ''<h1'' x = Some r) \<or> (\<exists>r. ci_prefix ''<h2'' x = Some r)
     \<or> (\<exists>r. ci_prefix ''<h3'' x = Some r)"
proof (cases "x = []")
  case True
  then show ?thesis by simp
next
  case False
  assume "heading_stop x"
  with False obtain r1 r2 where 1: "ci_prefix ''<h'' x = Some r1" and 2: "one_of ''123'' r1 = Some r2"
    by (auto simp add: heading_stop_def split: bind_splits)
  from heading_open_literal [OF 1 2] show ?thesis by auto
qed

lemma opens_heading_stop:
  assumes "opens_with x ''<h1'' \<or> opens_with x ''<h2'' \<or> opens_with x ''<h3''"
  shows "heading_stop x"
proof -
  from assms obtain c where c: "c \<in> set ''123''" and o: "opens_with x (''<h'' @ [c])"
    by auto
  from c have lc: "toLowerCase (''<h'' @ [c]) = ''<h'' @ [c]"
    by (auto simp add: lower_lits)
  from ci_prefix_opens [of x "''<h'' @ [c]"] o lc
  obtain r where "ci_prefix (''<h'' @ [c]) x = Some r" by auto
  then obtain r1 where 1: "ci_prefix ''<h'' x = Some r1" and 2: "ci_prefix [c] r1 = Some r"
    unfolding ci_prefix_compose by (auto split: bind_splits)
  from 2 obtain d where d: "r1 = d # r" and "lower_char c = lower_char d"
    by (cases r1) (auto split: if_splits)
  with c have "lower_char d = c"
    by (auto simp add: lower_char_lits lower_char_more)
  moreover from c have "(of_char c :: int) < 97" by auto
  ultimately have "d = c" by (rule lower_char_low)
  with d c 1 show ?thesis
    by (simp add: heading_stop_def one_of_def)
qed

lemma hd_opens_with: "opens_with x (c # p) \<Longrightarrow> x \<noteq> [] \<and> lower_char (hd x) = c"
  by (cases x) (simp_all add: opens_with_def toLowerCase_def)

text \<open>
  No match of a pattern starts inside a text that does not hold the pattern's opening
  literal.
\<close>

lemma none_before_literals:
  assumes f: "\<And>x g. f x = Some g \<Longrightarrow> \<exists>p\<in>P. \<exists>r. ci_prefix p x = Some r"
    and t: "\<forall>p\<in>P. t = [] \<or> (\<forall>c\<in>set (tl p). lower_char c \<noteq> lower_char (hd t))"
  shows "\<forall>p\<in>P. \<not> mentions pre (toLowerCase p) \<Longrightarrow> none_before f pre t"
proof (induction pre)
  case Nil
  show ?case by simp
next
  case (Cons c cs)
  have "f (c # cs @ t) = None"
  proof (rule ccontr)
    assume "f (c # cs @ t) \<noteq> None"
    then obtain g where "f ((c # cs) @ t) = Some g" by auto
    from f [OF this] obtain p r where p: "p \<in> P" and r: "ci_prefix p ((c # cs) @ t) = Some r"
      by blast
    from t p have "t = [] \<or> (\<forall>c\<in>set (tl p). lower_char c \<noteq> lower_char (hd t))" by blast
    from ci_prefix_inside_mentions [OF r _ this] have "mentions (c # cs) (toLowerCase p)" by simp
    with Cons.prems p show False by blast
  qed
  moreover from Cons.prems have "\<forall>p\<in>P. \<not> mentions cs (toLowerCase p)"
    using mentions_Cons by blast
  ultimately show ?case using Cons.IH by simp
qed

lemma none_stop_literals:
  assumes f: "\<And>x. stop x \<Longrightarrow> x = [] \<or> (\<exists>p\<in>P. \<exists>r. ci_prefix p x = Some r)"
    and t: "\<forall>p\<in>P. t = [] \<or> (\<forall>c\<in>set (tl p). lower_char c \<noteq> lower_char (hd t))"
  shows "\<forall>p\<in>P. \<not> mentions sect (toLowerCase p) \<Longrightarrow> none_stop stop sect t"
proof (induction sect)
  case Nil
  show ?case by simp
next
  case (Cons c cs)
  have "\<not> stop (c # cs @ t)"
  proof
    assume "stop (c # cs @ t)"
    from f [OF this] obtain p r where p: "p \<in> P" and r: "ci_prefix p ((c # cs) @ t) = Some r"
      by auto
    from t p have "t = [] \<or> (\<forall>c\<in>set (tl p). lower_char c \<noteq> lower_char (hd t))" by blast
    from ci_prefix_inside_mentions [OF r _ this] have "mentions (c # cs) (toLowerCase p)" by simp
    with Cons.prems p show False by blast
  qed
  moreover from Cons.prems have "\<forall>p\<in>P. \<not> mentions cs (toLowerCase p)"
    using mentions_Cons by blast
  ultimately show ?case using Cons.IH by simp
qed
lemma find_first_None:
  assumes f: "\<And>x g. f x = Some g \<Longrightarrow> \<exists>p\<in>P. mentions x p"
  shows "\<forall>p\<in>P. \<not> mentions html p \<Longrightarrow> find_first f html = None"
proof (induction html)
  case Nil
  with f [of "[]"] show ?case by (cases "f []") auto
next
  case (Cons c cs)
  with f [of "c # cs"] have "f (c # cs) = None" by (cases "f (c # cs)") auto
  moreover from Cons.prems have "\<forall>p\<in>P. \<not> mentions cs p"
    using mentions_Cons by blast
  ultimately show ?case using Cons.IH by simp
qed

lemma ci_prefix_gt: "ci_prefix ''>'' s = Some r \<Longrightarrow> s = CHR ''>'' # r"
proof -
  assume a: "ci_prefix ''>'' s = Some r"
  then obtain d where d: "s = d # r" and "lower_char (CHR ''>'') = lower_char d"
    by (cases s) (auto split: if_splits)
  then have "lower_char d = CHR ''>''" by (simp add: lower_char_lits)
  moreover have "(of_char (CHR ''>'') :: int) < 97" by simp
  ultimately have "d = CHR ''>''" by (rule lower_char_low)
  with d show ?thesis by simp
qed

lemma summary_heading_at_mentions:
  assumes "summary_heading_at x = Some g"
  shows "mentions x ''>summary</h2>'' \<or> mentions x ''>summary</h3>''"
proof -
  from assms obtain r1 r2 r3 r4 r5 r6 where 1: "ci_prefix ''<h'' x = Some r1"
    and 2: "one_of ''23'' r1 = Some r2" and 3: "skip_tag_rest r2 = Some r3"
    and 4: "ci_prefix ''Summary</h'' r3 = Some r4" and 5: "one_of ''23'' r4 = Some r5"
    and 6: "ci_prefix ''>'' r5 = Some r6"
    by (auto simp add: summary_heading_at_def split: bind_splits)
  from ci_prefix_split [OF 1] obtain a1 where a1: "x = a1 @ r1" by blast
  from one_of_split [OF 2] obtain c where c: "r1 = c # r2" by blast
  from skip_tag_rest_split [OF 3] obtain u where u: "r2 = u @ CHR ''>'' # r3" by blast
  from ci_prefix_split [OF 4] obtain a4 where a4: "r3 = a4 @ r4" "toLowerCase a4 = ''summary</h''"
    by (auto simp add: lower_lits)
  from one_of_split [OF 5] obtain d where d: "r4 = d # r5" "d = CHR ''2'' \<or> d = CHR ''3''"
    by auto
  from ci_prefix_gt [OF 6] have g: "r5 = CHR ''>'' # r6" .
  from a1 c u a4 d(1) g
  have "toLowerCase x = toLowerCase (a1 @ c # u) @ (''>summary</h'' @ [lower_char d] @ ''>'') @ toLowerCase r6"
    by (simp add: toLowerCase_def lower_char_lits)
  then have "mentions x (''>summary</h'' @ [lower_char d] @ ''>'')"
    unfolding mentions_iff by blast
  with d(2) show ?thesis
    by (auto simp add: lower_char_lits)
qed

lemma summary_strong_at_mentions:
  assumes "summary_strong_at x = Some g"
  shows "mentions x ''>summary</strong>'' \<or> mentions x ''>summary:</strong>''"
proof -
  from assms obtain r1 r2 r3 r4 r5 r6 where 1: "ci_prefix ''<p'' x = Some r1"
    and 2: "skip_tag_rest r1 = Some r2" and 3: "ci_prefix ''<strong'' r2 = Some r3"
    and 4: "skip_tag_rest r3 = Some r4" and 5: "ci_prefix ''Summary'' r4 = Some r5"
    and 6: "ci_prefix ''</strong>''
              (case r5 of c # r \<Rightarrow> (if c = CHR '':'' then r else r5) | [] \<Rightarrow> r5) = Some r6"
    by (auto simp add: summary_strong_at_def split: bind_splits)
  from ci_prefix_split [OF 1] obtain a1 where a1: "x = a1 @ r1" by blast
  from skip_tag_rest_split [OF 2] obtain u1 where u1: "r1 = u1 @ CHR ''>'' # r2" by blast
  from ci_prefix_split [OF 3] obtain a3 where a3: "r2 = a3 @ r3" by blast
  from skip_tag_rest_split [OF 4] obtain u3 where u3: "r3 = u3 @ CHR ''>'' # r4" by blast
  from ci_prefix_split [OF 5] obtain a5 where a5: "r4 = a5 @ r5" "toLowerCase a5 = ''summary''"
    by (auto simp add: lower_lits)
  from ci_prefix_split [OF 6] obtain a6
    where a6: "(case r5 of c # r \<Rightarrow> (if c = CHR '':'' then r else r5) | [] \<Rightarrow> r5) = a6 @ r6"
      "toLowerCase a6 = ''</strong>''"
    by (auto simp add: lower_strong)
  define pre where "pre = a1 @ u1 @ CHR ''>'' # a3 @ u3"
  from a1 u1 a3 u3 a5 have x: "x = pre @ CHR ''>'' # a5 @ r5"
    by (simp add: pre_def)
  show ?thesis
  proof (cases "\<exists>r. r5 = CHR '':'' # r")
    case True
    then obtain r where r: "r5 = CHR '':'' # r" by blast
    with a6 have "r = a6 @ r6" by simp
    with x r a5 a6 have "toLowerCase x = toLowerCase pre @ ''>summary:</strong>'' @ toLowerCase r6"
      by (simp add: toLowerCase_def lower_char_lits lower_char_more)
    then have "mentions x ''>summary:</strong>''"
      unfolding mentions_iff by blast
    then show ?thesis by simp
  next
    case False
    with a6 have "r5 = a6 @ r6" by (cases r5) (auto split: if_splits)
    with x a5 a6 have "toLowerCase x = toLowerCase pre @ ''>summary</strong>'' @ toLowerCase r6"
      by (simp add: toLowerCase_def lower_char_lits lower_char_more)
    then have "mentions x ''>summary</strong>''"
      unfolding mentions_iff by blast
    then show ?thesis by simp
  qed
qed

lemma summary_strong_at_opens: "summary_strong_at x = Some g \<Longrightarrow> \<exists>r. ci_prefix ''<p'' x = Some r"
  by (auto simp add: summary_strong_at_def split: bind_splits)

lemma first_para_at_opens: "first_para_at x = Some g \<Longrightarrow> \<exists>r. ci_prefix ''<p'' x = Some r"
  by (auto simp add: first_para_at_def split: bind_splits)

lemma until_close_body:
  "\<not> mentions body ''</p>'' \<Longrightarrow> until_close (body @ ''</p>'' @ rest) = Some body"
proof (induction body)
  case Nil
  show ?case by (simp add: lower_char_lits lower_char_more)
next
  case (Cons c cs)
  have "ci_prefix ''</p>'' (c # cs @ ''</p>'' @ rest) = None"
  proof (rule ccontr)
    assume "ci_prefix ''</p>'' (c # cs @ ''</p>'' @ rest) \<noteq> None"
    then obtain r where r: "ci_prefix ''</p>'' ((c # cs) @ ''</p>'' @ rest) = Some r" by auto
    have "''</p>'' @ rest = [] \<or>
        (\<forall>c\<in>set (tl ''</p>''). lower_char c \<noteq> lower_char (hd (''</p>'' @ rest)))"
      by (simp add: lower_char_lits lower_char_more)
    from ci_prefix_inside_mentions [OF r _ this] have "mentions (c # cs) ''</p>''"
      by (simp add: lower_lits)
    with Cons.prems show False by simp
  qed
  moreover from Cons.prems have "\<not> mentions cs ''</p>''"
    using mentions_Cons by blast
  ultimately show ?case using Cons.IH by simp
qed

lemma summary_strong_at_literal:
  "summary_strong_at (''<p><strong>Summary:</strong>'' @ y) = until_close y"
  by (simp add: summary_strong_at_def skip_tag_rest_def lower_char_lits lower_char_more)

lemma first_para_at_literal: "first_para_at (''<p>'' @ y) = until_close y"
  by (simp add: first_para_at_def skip_tag_rest_def lower_char_lits lower_char_more)
lemma find_first_same:
  "none_other f x pre t \<Longrightarrow> find_first f t = Some x \<Longrightarrow> find_first f (pre @ t) = Some x"
proof (induction pre)
  case Nil
  then show ?case by simp
next
  case (Cons c cs)
  then show ?case by (cases "f (c # cs @ t)") auto
qed

lemma skip_tag_rest_append_out:
  "CHR ''>'' \<notin> set s \<Longrightarrow> skip_tag_rest (s @ t) = skip_tag_rest t"
proof -
  assume "CHR ''>'' \<notin> set s"
  then have "\<And>x. x \<in> set s \<Longrightarrow> x \<noteq> CHR ''>''" by auto
  then have "dropWhile (\<lambda>c. c \<noteq> CHR ''>'') (s @ t) = dropWhile (\<lambda>c. c \<noteq> CHR ''>'') t"
    by (rule dropWhile_append2)
  then show ?thesis by (simp add: skip_tag_rest_def)
qed

lemma skip_tag_rest_append_in:
  assumes "CHR ''>'' \<in> set s"
  shows "\<exists>u s'. s = u @ CHR ''>'' # s' \<and> skip_tag_rest (s @ t) = Some (s' @ t)"
proof -
  from assms have dw: "dropWhile (\<lambda>c. c \<noteq> CHR ''>'') (s @ t) = dropWhile (\<lambda>c. c \<noteq> CHR ''>'') s @ t"
    by (simp add: dropWhile_append1)
  from assms have "dropWhile (\<lambda>c. c \<noteq> CHR ''>'') s \<noteq> []"
    by (simp add: dropWhile_eq_Nil_conv)
  then obtain d s' where ds: "dropWhile (\<lambda>c. c \<noteq> CHR ''>'') s = d # s'"
    by (cases "dropWhile (\<lambda>c. c \<noteq> CHR ''>'') s") auto
  then have "d = CHR ''>''"
    using hd_dropWhile [of "\<lambda>c. c \<noteq> CHR ''>''" s] by auto
  with ds have "s = takeWhile (\<lambda>c. c \<noteq> CHR ''>'') s @ CHR ''>'' # s'"
    using takeWhile_dropWhile_id [of "\<lambda>c. c \<noteq> CHR ''>''" s] by simp
  moreover from dw ds have "skip_tag_rest (s @ t) = Some (s' @ t)"
    by (simp add: skip_tag_rest_def)
  ultimately show ?thesis by blast
qed

text \<open>
  Before a summary heading, a match of the heading pattern that starts in a text with
  no summary heading of its own can only be a tag left open there and closed by the
  heading's \<open>>\<close>: its group is the group of the match at the heading.
\<close>

lemma heading_before_same:
  assumes h: "summary_heading h"
  shows "no_summary_heading pre \<Longrightarrow>
         none_other summary_heading_at (lazy_until heading_stop y) pre (h @ y)"
proof (induction pre)
  case Nil
  show ?case by simp
next
  case (Cons c cs)
  let ?t = "h @ y"
  from h obtain t' where t: "?t = CHR ''<'' # CHR ''h'' # t'"
    by (auto simp add: summary_heading_def)
  have st: "?t = [] \<or> (\<forall>d\<in>set (tl p). lower_char d \<noteq> lower_char (hd ?t))"
    if "p \<in> {''<h2'', ''<h3'', ''Summary'', ''</h''}" for p
    using that t by (auto simp add: lower_char_lits lower_char_more)
  have "g = lazy_until heading_stop y" if m: "summary_heading_at ((c # cs) @ ?t) = Some g" for g
  proof -
    from m obtain r1 r2 r3 r4 r5 r6 where 1: "ci_prefix ''<h'' ((c # cs) @ ?t) = Some r1"
      and 2: "one_of ''23'' r1 = Some r2" and 3: "skip_tag_rest r2 = Some r3"
      and 4: "ci_prefix ''Summary</h'' r3 = Some r4" and 5: "one_of ''23'' r4 = Some r5"
      and 6: "ci_prefix ''>'' r5 = Some r6" and g: "g = lazy_until heading_stop r6"
      by (auto simp add: summary_heading_at_def split: bind_splits)
    from heading_open_literal [OF 1 2] obtain c0 where c0: "c0 \<in> set ''23''"
      and o: "ci_prefix (''<h'' @ [c0]) ((c # cs) @ ?t) = Some r2" by blast
    from c0 have "''<h'' @ [c0] \<in> {''<h2'', ''<h3'', ''Summary'', ''</h''}" by auto
    from ci_prefix_inside [OF o _ st [OF this]] obtain r2'
      where i: "ci_prefix (''<h'' @ [c0]) (c # cs) = Some r2'" and r2: "r2 = r2' @ ?t" by auto
    from ci_prefix_split [OF i] obtain a where a: "c # cs = a @ r2'" by blast
    show ?thesis
    proof (cases "CHR ''>'' \<in> set r2'")
      case False
      with 3 r2 have "skip_tag_rest ?t = Some r3"
        by (simp add: skip_tag_rest_append_out)
      with h 4 5 6 g show ?thesis
        by (auto simp add: summary_heading_def skip_tag_rest_def one_of_def lower_char_lits
            split: if_splits)
    next
      case True
      from skip_tag_rest_append_in [OF True, of ?t] 3 r2 obtain u s3
        where u: "r2' = u @ CHR ''>'' # s3" and r3: "r3 = s3 @ ?t" by auto
      from 4 ci_prefix_compose [of "''Summary''" "''</h''" r3]
      obtain q where q1: "ci_prefix ''Summary'' r3 = Some q" and q2: "ci_prefix ''</h'' q = Some r4"
        by (auto split: bind_splits)
      have s3: "s3 \<noteq> []"
      proof
        assume "s3 = []"
        with q1 r3 t show False by (simp add: lower_char_lits)
      qed
      from q1 r3 have "ci_prefix ''Summary'' (s3 @ ?t) = Some q" by simp
      from ci_prefix_inside [OF this s3 st] obtain q'
        where q1': "ci_prefix ''Summary'' s3 = Some q'" and q: "q = q' @ ?t" by auto
      have q'ne: "q' \<noteq> []"
      proof
        assume "q' = []"
        with q2 q t show False by (simp add: lower_char_lits)
      qed
      from q2 q have "ci_prefix ''</h'' (q' @ ?t) = Some r4" by simp
      from ci_prefix_inside [OF this q'ne st] obtain r4'
        where q2': "ci_prefix ''</h'' q' = Some r4'" and r4: "r4 = r4' @ ?t" by auto
      from one_of_split [OF 5] obtain c5 where c5: "r4 = c5 # r5" "c5 \<in> set ''23''" by blast
      have "r4' \<noteq> []"
      proof
        assume "r4' = []"
        with r4 c5 t show False by auto
      qed
      with r4 c5(1) obtain r5' where r4'': "r4' = c5 # r5'" and r5: "r5 = r5' @ ?t"
        by (cases r4') auto
      from ci_prefix_gt [OF 6] have gt: "r5 = CHR ''>'' # r6" .
      have "r5' \<noteq> []"
      proof
        assume "r5' = []"
        with r5 gt t show False by simp
      qed
      with r5 gt obtain r6' where r5'': "r5' = CHR ''>'' # r6'"
        by (cases r5') auto
      from ci_prefix_split [OF q1'] obtain aS where aS: "s3 = aS @ q'" "toLowerCase aS = ''summary''"
        by (auto simp add: lower_lits)
      from ci_prefix_split [OF q2'] obtain aC where aC: "q' = aC @ r4'" "toLowerCase aC = ''</h''"
        by (auto simp add: toLowerCase_def lower_char_lits)
      from a u aS aC r4'' r5''
      have "c # cs = (a @ u) @ (CHR ''>'' # aS @ aC @ [c5] @ ''>'') @ r6'"
        by simp
      then have "toLowerCase (c # cs) =
          toLowerCase (a @ u) @ toLowerCase (CHR ''>'' # aS @ aC @ [c5] @ ''>'') @ toLowerCase r6'"
        by (simp only: toLowerCase_append)
      moreover from aS aC c5(2) have "toLowerCase (CHR ''>'' # aS @ aC @ [c5] @ ''>'') = ''>summary</h2>''
          \<or> toLowerCase (CHR ''>'' # aS @ aC @ [c5] @ ''>'') = ''>summary</h3>''"
        by (auto simp add: toLowerCase_def lower_char_lits)
      ultimately have "mentions (c # cs) ''>summary</h2>'' \<or> mentions (c # cs) ''>summary</h3>''"
        unfolding mentions_iff by metis
      with Cons.prems show ?thesis
        by (simp add: no_summary_heading_def)
    qed
  qed
  moreover from Cons.prems have "no_summary_heading cs"
    using mentions_Cons by (auto simp add: no_summary_heading_def)
  ultimately show ?case using Cons.IH by simp
qed

text \<open>
  The same for the bold pattern before a paragraph \<open><p><strong>Summary:</strong>\<close>: a
  match that starts in a text with no bold summary label of its own is a \<open><p\<close> tag
  left open there, and its group is the group of the match at the paragraph.
\<close>

lemma strong_before_same:
  assumes y: "until_close y = Some x"
  shows "no_bold_summary pre \<Longrightarrow>
         none_other summary_strong_at x pre (''<p><strong>Summary:</strong>'' @ y)"
proof (induction pre)
  case Nil
  show ?case by simp
next
  case (Cons c cs)
  let ?t = "''<p><strong>Summary:</strong>'' @ y"
  have st: "?t = [] \<or> (\<forall>d\<in>set (tl p). lower_char d \<noteq> lower_char (hd ?t))"
    if "p \<in> {''<p'', ''<strong'', ''Summary'', ''</strong>''}" for p
    using that by (auto simp add: lower_char_lits lower_char_more)
  have "g = x" if m: "summary_strong_at ((c # cs) @ ?t) = Some g" for g
  proof -
    from m obtain r1 r2 r3 r4 r5 r6 where 1: "ci_prefix ''<p'' ((c # cs) @ ?t) = Some r1"
      and 2: "skip_tag_rest r1 = Some r2" and 3: "ci_prefix ''<strong'' r2 = Some r3"
      and 4: "skip_tag_rest r3 = Some r4" and 5: "ci_prefix ''Summary'' r4 = Some r5"
      and 6: "ci_prefix ''</strong>''
                (case r5 of c # r \<Rightarrow> (if c = CHR '':'' then r else r5) | [] \<Rightarrow> r5) = Some r6"
      and 7: "until_close r6 = Some g"
      by (auto simp add: summary_strong_at_def split: bind_splits)
    from ci_prefix_inside [OF 1 _ st] obtain r1'
      where i1: "ci_prefix ''<p'' (c # cs) = Some r1'" and r1: "r1 = r1' @ ?t" by auto
    from ci_prefix_split [OF i1] obtain a1 where a1: "c # cs = a1 @ r1'" by blast
    show ?thesis
    proof (cases "CHR ''>'' \<in> set r1'")
      case False
      with 2 r1 have "skip_tag_rest ?t = Some r2"
        by (simp add: skip_tag_rest_append_out)
      with 3 4 5 6 have "r6 = y"
        by (auto simp add: skip_tag_rest_def lower_char_lits lower_char_more split: if_splits)
      with 7 y show ?thesis by simp
    next
      case True
      from skip_tag_rest_append_in [OF True, of ?t] 2 r1 obtain u1 s2
        where u1: "r1' = u1 @ CHR ''>'' # s2" and r2: "r2 = s2 @ ?t" by auto
      have s2: "s2 \<noteq> []"
      proof
        assume "s2 = []"
        with 3 r2 show False by (simp add: lower_char_lits lower_char_more)
      qed
      from 3 r2 have "ci_prefix ''<strong'' (s2 @ ?t) = Some r3" by simp
      from ci_prefix_inside [OF this s2 st] obtain r3'
        where i3: "ci_prefix ''<strong'' s2 = Some r3'" and r3: "r3 = r3' @ ?t" by auto
      from ci_prefix_split [OF i3] obtain a3 where a3: "s2 = a3 @ r3'" by blast
      have in3: "CHR ''>'' \<in> set r3'"
      proof (rule ccontr)
        assume "CHR ''>'' \<notin> set r3'"
        with 4 r3 have "skip_tag_rest ?t = Some r4"
          by (simp add: skip_tag_rest_append_out)
        with 5 show False
          by (auto simp add: skip_tag_rest_def lower_char_lits lower_char_more split: if_splits)
      qed
      from skip_tag_rest_append_in [OF in3, of ?t] 4 r3 obtain u3 s4
        where u3: "r3' = u3 @ CHR ''>'' # s4" and r4: "r4 = s4 @ ?t" by auto
      have s4: "s4 \<noteq> []"
      proof
        assume "s4 = []"
        with 5 r4 show False by (simp add: lower_char_lits lower_char_more)
      qed
      from 5 r4 have "ci_prefix ''Summary'' (s4 @ ?t) = Some r5" by simp
      from ci_prefix_inside [OF this s4 st] obtain r5'
        where i5: "ci_prefix ''Summary'' s4 = Some r5'" and r5: "r5 = r5' @ ?t" by auto
      from ci_prefix_split [OF i5] obtain a5 where a5: "s4 = a5 @ r5'" "toLowerCase a5 = ''summary''"
        by (auto simp add: lower_lits)
      define colon where "colon = (if r5' \<noteq> [] \<and> hd r5' = CHR '':'' then '':'' else [])"
      define z where "z = (if r5' \<noteq> [] \<and> hd r5' = CHR '':'' then tl r5' else r5')"
      have r5z: "r5' = colon @ z"
        by (cases r5') (auto simp add: colon_def z_def)
      have zt: "(case r5 of c # r \<Rightarrow> (if c = CHR '':'' then r else r5) | [] \<Rightarrow> r5) = z @ ?t"
        unfolding r5 by (cases r5') (auto simp add: z_def)
      have zne: "z \<noteq> []"
      proof
        assume "z = []"
        with 6 zt show False by (simp add: lower_char_lits lower_char_more)
      qed
      from 6 zt have "ci_prefix ''</strong>'' (z @ ?t) = Some r6" by simp
      from ci_prefix_inside [OF this zne st] obtain r6'
        where i6: "ci_prefix ''</strong>'' z = Some r6'" by auto
      from ci_prefix_split [OF i6] obtain a6 where a6: "z = a6 @ r6'" "toLowerCase a6 = ''</strong>''"
        by (auto simp add: lower_strong)
      from a1 u1 a3 u3 a5 r5z a6
      have "c # cs = (a1 @ u1 @ CHR ''>'' # a3 @ u3) @ (CHR ''>'' # a5 @ colon @ a6) @ r6'"
        by simp
      then have "toLowerCase (c # cs) =
          toLowerCase (a1 @ u1 @ CHR ''>'' # a3 @ u3) @ toLowerCase (CHR ''>'' # a5 @ colon @ a6) @
          toLowerCase r6'"
        by (simp only: toLowerCase_append)
      moreover from a5 a6 have "toLowerCase (CHR ''>'' # a5 @ colon @ a6) = ''>summary</strong>''
          \<or> toLowerCase (CHR ''>'' # a5 @ colon @ a6) = ''>summary:</strong>''"
        by (auto simp add: colon_def toLowerCase_def lower_char_lits lower_char_more)
      ultimately have "mentions (c # cs) ''>summary</strong>'' \<or> mentions (c # cs) ''>summary:</strong>''"
        unfolding mentions_iff by metis
      with Cons.prems show ?thesis
        by (simp add: no_bold_summary_def)
    qed
  qed
  moreover from Cons.prems have "no_bold_summary cs"
    using mentions_Cons by (auto simp add: no_bold_summary_def)
  ultimately show ?case using Cons.IH by simp
qed

lemma summaryRegex_section:
  assumes "summary_section_document pre h sect rest"
  shows "summaryRegex (pre @ h @ sect @ rest) = Some sect"
proof -
  from assms have h: "summary_heading h" and p: "no_summary_heading pre"
    and s: "\<forall>p\<in>{''<h1'', ''<h2'', ''<h3''}. \<not> mentions sect (toLowerCase p)"
    and r: "rest = [] \<or> opens_with rest ''<h1'' \<or> opens_with rest ''<h2'' \<or> opens_with rest ''<h3''"
    by (simp_all add: summary_section_document_def lower_lits)
  from r hd_opens_with [of rest "CHR ''<''"] have "rest = [] \<or> lower_char (hd rest) = CHR ''<''"
    by auto
  then have "\<forall>p\<in>{''<h1'', ''<h2'', ''<h3''}. rest = [] \<or>
      (\<forall>c\<in>set (tl p). lower_char c \<noteq> lower_char (hd rest))"
    by (auto simp add: lower_char_lits lower_char_more)
  from none_stop_literals [of heading_stop "{''<h1'', ''<h2'', ''<h3''}", OF _ this s]
  have n: "none_stop heading_stop sect rest"
    using heading_stop_opens by blast
  from r have "rest = [] \<or> heading_stop rest"
    using opens_heading_stop by blast
  from lazy_until_section [OF n this]
  have l: "lazy_until heading_stop (sect @ rest) = sect" .
  have "summary_heading_at (h @ sect @ rest) = Some sect"
    using summary_heading_at_literal [OF h, of "sect @ rest"] l by simp
  then have f: "find_first summary_heading_at (h @ sect @ rest) = Some sect"
    by (rule find_first_here)
  from heading_before_same [OF h p, of "sect @ rest"] l
  have "none_other summary_heading_at sect pre (h @ sect @ rest)" by simp
  from find_first_same [OF this f] show ?thesis
    by (simp add: summaryRegex_def)
qed

lemma summaryRegex_no_heading: "no_summary_heading html \<Longrightarrow> summaryRegex html = None"
proof -
  assume "no_summary_heading html"
  then have "\<forall>p\<in>{''>summary</h2>'', ''>summary</h3>''}. \<not> mentions html p"
    by (simp add: no_summary_heading_def)
  from find_first_None [of summary_heading_at "{''>summary</h2>'', ''>summary</h3>''}", OF _ this]
  show ?thesis
    unfolding summaryRegex_def using summary_heading_at_mentions by blast
qed

lemma summaryStrongRegex_no_bold: "no_bold_summary html \<Longrightarrow> summaryStrongRegex html = None"
proof -
  assume "no_bold_summary html"
  then have "\<forall>p\<in>{''>summary</strong>'', ''>summary:</strong>''}. \<not> mentions html p"
    by (simp add: no_bold_summary_def)
  from find_first_None [of summary_strong_at "{''>summary</strong>'', ''>summary:</strong>''}", OF _ this]
  show ?thesis
    unfolding summaryStrongRegex_def using summary_strong_at_mentions by blast
qed

lemma summaryStrongRegex_bold:
  assumes "no_bold_summary pre" and "\<not> mentions body ''</p>''"
  shows "summaryStrongRegex (pre @ ''<p><strong>Summary:</strong>'' @ body @ ''</p>'' @ rest) = Some body"
proof -
  from assms(2) have u: "until_close (body @ ''</p>'' @ rest) = Some body"
    by (rule until_close_body)
  have "summary_strong_at (''<p><strong>Summary:</strong>'' @ body @ ''</p>'' @ rest) = Some body"
    unfolding summary_strong_at_literal by (rule u)
  then have f: "find_first summary_strong_at (''<p><strong>Summary:</strong>'' @ body @ ''</p>'' @ rest) = Some body"
    by (rule find_first_here)
  from strong_before_same [OF u assms(1)] find_first_same [OF _ f] show ?thesis
    by (simp only: summaryStrongRegex_def)
qed

lemma firstParaRegex_first:
  assumes "\<not> mentions pre ''<p''" and "\<not> mentions body ''</p>''"
  shows "firstParaRegex (pre @ ''<p>'' @ body @ ''</p>'' @ rest) = Some body"
proof -
  have "\<forall>p\<in>{''<p''}. ''<p>'' @ body @ ''</p>'' @ rest = [] \<or>
      (\<forall>c\<in>set (tl p). lower_char c \<noteq> lower_char (hd (''<p>'' @ body @ ''</p>'' @ rest)))"
    by (simp add: lower_char_lits lower_char_more)
  moreover from assms(1) have "\<forall>p\<in>{''<p''}. \<not> mentions pre (toLowerCase p)"
    by (simp add: lower_lits)
  ultimately have b: "none_before first_para_at pre (''<p>'' @ body @ ''</p>'' @ rest)"
    using none_before_literals [of first_para_at "{''<p''}" "''<p>'' @ body @ ''</p>'' @ rest" pre]
      first_para_at_opens by blast
  have "first_para_at (''<p>'' @ body @ ''</p>'' @ rest) = Some body"
    unfolding first_para_at_literal using assms(2) by (rule until_close_body)
  then have "find_first first_para_at (''<p>'' @ body @ ''</p>'' @ rest) = Some body"
    by (rule find_first_here)
  with find_first_skip [OF b] show ?thesis
    by (simp add: firstParaRegex_def)
qed

lemma no_paragraph_no_match:
  assumes "\<not> mentions html ''<p''"
  shows "summaryStrongRegex html = None" and "firstParaRegex html = None"
proof -
  from assms have n: "\<forall>p\<in>{''<p''}. \<not> mentions html p" by simp
  have "\<exists>p\<in>{''<p''}. mentions x p" if "summary_strong_at x = Some g" for x g
    using summary_strong_at_opens [OF that] ci_prefix_mentions [of "''<p''" x]
    by (auto simp add: lower_lits)
  from find_first_None [of summary_strong_at "{''<p''}", OF this n]
  show "summaryStrongRegex html = None" by (simp add: summaryStrongRegex_def)
  have "\<exists>p\<in>{''<p''}. mentions x p" if "first_para_at x = Some g" for x g
    using first_para_at_opens [OF that] ci_prefix_mentions [of "''<p''" x]
    by (auto simp add: lower_lits)
  from find_first_None [of first_para_at "{''<p''}", OF this n]
  show "firstParaRegex html = None" by (simp add: firstParaRegex_def)
qed


text \<open>
  C4 (as the code has it). \<open>extractSummary\<close> applies its patterns in order, and the
  first that matches decides. A document with a summary section yields the cleaned
  content of that section: the text from the first heading \<open><h2>Summary</h2>\<close> or
  \<open><h3>Summary</h3>\<close> to the next heading of level 1 to 3, or to the end of the
  document. A heading of level 4 to 6 does not end the section, and bold \<open>Summary:\<close>
  paragraphs, other paragraphs and other headings before, in or after the section
  change nothing. A document with no summary heading and a bold summary paragraph
  yields the cleaned rest of that paragraph, whatever paragraphs stand before it. A
  document with neither yields the cleaned content of its first paragraph. A document
  with no summary heading and no paragraph tag yields the first 500 characters of the
  cleaned document.
\<close>

theorem extractSummary_priority:
  "(summary_section_document pre h sect rest \<longrightarrow>
      extractSummary (JStr (pre @ h @ sect @ rest)) = JStr (cleanHtml sect)) \<and>
   (bold_summary_document pre body rest \<longrightarrow>
      extractSummary (JStr (pre @ ''<p><strong>Summary:</strong>'' @ body @ ''</p>'' @ rest)) =
        JStr (cleanHtml body)) \<and>
   (first_paragraph_document pre body rest \<longrightarrow>
      extractSummary (JStr (pre @ ''<p>'' @ body @ ''</p>'' @ rest)) = JStr (cleanHtml body)) \<and>
   (html \<noteq> [] \<longrightarrow> no_summary_heading html \<longrightarrow> \<not> mentions html ''<p'' \<longrightarrow>
      extractSummary (JStr html) = JStr (take 500 (cleanHtml html)))"
proof -
  have a: "extractSummary (JStr (pre @ h @ sect @ rest)) = JStr (cleanHtml sect)"
    if d: "summary_section_document pre h sect rest"
  proof -
    from d have "h \<noteq> []"
      by (auto simp add: summary_section_document_def summary_heading_def)
    then have "pre @ h @ sect @ rest \<noteq> []" by simp
    with summaryRegex_section [OF d] show ?thesis
      by (simp add: extractSummary_def extractSummary_try_def summary_text_def)
  qed
  have b: "extractSummary (JStr (pre @ ''<p><strong>Summary:</strong>'' @ body @ ''</p>'' @ rest)) =
        JStr (cleanHtml body)"
    if d: "bold_summary_document pre body rest"
  proof -
    let ?html = "pre @ ''<p><strong>Summary:</strong>'' @ body @ ''</p>'' @ rest"
    from d have n: "no_summary_heading ?html" and p: "no_bold_summary pre"
      and q: "\<not> mentions body ''</p>''"
      unfolding bold_summary_document_def by blast+
    from n have 1: "summaryRegex ?html = None"
      by (rule summaryRegex_no_heading)
    from p q have 2: "summaryStrongRegex ?html = Some body"
      by (rule summaryStrongRegex_bold)
    from 1 2 show ?thesis
      by (simp add: extractSummary_def extractSummary_try_def summary_text_def)
  qed
  have c: "extractSummary (JStr (pre @ ''<p>'' @ body @ ''</p>'' @ rest)) = JStr (cleanHtml body)"
    if d: "first_paragraph_document pre body rest"
  proof -
    let ?html = "pre @ ''<p>'' @ body @ ''</p>'' @ rest"
    from d have n: "no_summary_heading ?html" and m: "no_bold_summary ?html"
      and p: "\<not> mentions pre ''<p''" and q: "\<not> mentions body ''</p>''"
      unfolding first_paragraph_document_def by blast+
    from n have 1: "summaryRegex ?html = None"
      by (rule summaryRegex_no_heading)
    from m have 2: "summaryStrongRegex ?html = None"
      by (rule summaryStrongRegex_no_bold)
    from p q have 3: "firstParaRegex ?html = Some body"
      by (rule firstParaRegex_first)
    from 1 2 3 show ?thesis
      by (simp add: extractSummary_def extractSummary_try_def summary_text_def)
  qed
  have d: "extractSummary (JStr html) = JStr (take 500 (cleanHtml html))"
    if "html \<noteq> []" and "no_summary_heading html" and "\<not> mentions html ''<p''"
    using that summaryRegex_no_heading [of html] no_paragraph_no_match [of html]
    by (simp add: extractSummary_def extractSummary_try_def summary_text_def)
  from a b c d show ?thesis by blast
qed

theorem extractSummary_priority_witness:
  "summary_section_document ''<h1>Summary</h1><h2>Scope</h2><p><strong>Summary:</strong> Not this one.</p>''
     ''<h2>Summary</h2>'' ''<p>Login is &amp; stays <b>fast</b>.</p><h4>Note</h4><p>Still here.</p>''
     ''<h2>Details</h2><p><strong>Summary:</strong> Nor this one.</p>'' \<and>
   extractSummary (JStr ''<h1>Summary</h1><h2>Scope</h2><p><strong>Summary:</strong> Not this one.</p><h2>Summary</h2><p>Login is &amp; stays <b>fast</b>.</p><h4>Note</h4><p>Still here.</p><h2>Details</h2><p><strong>Summary:</strong> Nor this one.</p>'')
     = JStr ''Login is & stays fast . Note Still here.'' \<and>
   bold_summary_document ''<h1>Summary</h1><p>Intro <strong>text</strong>.</p>'' '' Bold one'' ''<p>Later</p>'' \<and>
   extractSummary (JStr ''<h1>Summary</h1><p>Intro <strong>text</strong>.</p><p><strong>Summary:</strong> Bold one</p><p>Later</p>'')
     = JStr ''Bold one'' \<and>
   first_paragraph_document ''<div><h4>Summary</h4>'' ''First'' ''<p>Second</p></div>'' \<and>
   extractSummary (JStr ''<div><h4>Summary</h4><p>First</p><p>Second</p></div>'') = JStr ''First'' \<and>
   no_summary_heading ''plain text only'' \<and> \<not> mentions ''plain text only'' ''<p'' \<and>
   extractSummary (JStr ''plain text only'') = JStr ''plain text only''"
proof -
  let ?pre = "''<h1>Summary</h1><h2>Scope</h2><p><strong>Summary:</strong> Not this one.</p>''"
  let ?h = "''<h2>Summary</h2>''"
  let ?sect = "''<p>Login is &amp; stays <b>fast</b>.</p><h4>Note</h4><p>Still here.</p>''"
  let ?rest = "''<h2>Details</h2><p><strong>Summary:</strong> Nor this one.</p>''"
  have 1: "summary_section_document ?pre ?h ?sect ?rest"
    by code_simp
  have 2: "bold_summary_document ''<h1>Summary</h1><p>Intro <strong>text</strong>.</p>'' '' Bold one'' ''<p>Later</p>''"
    by code_simp
  have 3: "first_paragraph_document ''<div><h4>Summary</h4>'' ''First'' ''<p>Second</p></div>''"
    by code_simp
  have 4: "no_summary_heading ''plain text only'' \<and> \<not> mentions ''plain text only'' ''<p''"
    by code_simp
  have 5: "cleanHtml ?sect = ''Login is & stays fast . Note Still here.'' \<and>
      cleanHtml '' Bold one'' = ''Bold one'' \<and> cleanHtml ''First'' = ''First'' \<and>
      take 500 (cleanHtml ''plain text only'') = ''plain text only''"
    by code_simp
  from extractSummary_priority [where pre = ?pre and h = ?h and sect = ?sect and rest = ?rest
      and body = "[]" and html = "[]"] 1 5
  have a: "extractSummary (JStr (?pre @ ?h @ ?sect @ ?rest)) = JStr ''Login is & stays fast . Note Still here.''"
    by simp
  from extractSummary_priority [where pre = "''<h1>Summary</h1><p>Intro <strong>text</strong>.</p>''" and h = "[]"
      and sect = "[]" and rest = "''<p>Later</p>''" and body = "'' Bold one''" and html = "[]"] 2 5
  have b: "extractSummary (JStr (''<h1>Summary</h1><p>Intro <strong>text</strong>.</p>'' @ ''<p><strong>Summary:</strong>'' @
      '' Bold one'' @ ''</p>'' @ ''<p>Later</p>'')) = JStr ''Bold one''"
    by simp
  from extractSummary_priority [where pre = "''<div><h4>Summary</h4>''" and h = "[]"
      and sect = "[]" and rest = "''<p>Second</p></div>''" and body = "''First''" and html = "[]"] 3 5
  have c: "extractSummary (JStr (''<div><h4>Summary</h4>'' @ ''<p>'' @ ''First'' @ ''</p>'' @
      ''<p>Second</p></div>'')) = JStr ''First''"
    by simp
  from extractSummary_priority [where pre = "[]" and h = "[]" and sect = "[]" and rest = "[]"
      and body = "[]" and html = "''plain text only''"] 4 5
  have d: "extractSummary (JStr ''plain text only'') = JStr ''plain text only''"
    by simp
  from 1 2 3 4 a b c d show ?thesis by simp
qed

text \<open>
  C4 as stated fails on where the section ends: a heading of level 4 does not end it,
  and the text under that heading is part of the summary.
\<close>

theorem extractSummary_next_heading_counterexample:
  "extractSummary (JStr ''<h2>Summary</h2><p>A</p><h4>Other topic</h4><p>B</p>'') =
     JStr ''A Other topic B'' \<and>
   extractSummary (JStr ''<h2>Summary</h2><p>A</p><h4>Other topic</h4><p>B</p>'') \<noteq> JStr ''A'' \<and>
   extractSummary (JStr ''<h2>Summary</h2><p>A</p><h2>Other topic</h2><p>B</p>'') = JStr ''A''"
  by code_simp

end
